theory Spec2Isabelle
  imports Main "HOL-Library.Sublist"
begin

section \<open>Content blocks and the height probe\<close>

text \<open>
  The paginators work on DOM elements. An element is modelled by what the code reads
  from it: \<open>tagName\<close> (upper case, as the DOM reports it for HTML elements),
  \<open>outerHTML\<close> and \<open>innerHTML\<close> (its serialised markup, with and without its own
  tag), \<open>children\<close> (its element children, in document order), \<open>textWords\<close>, the
  value of \<open>element.textContent.split(/\s+/)\<close>, and \<open>isHTMLElement\<close>, whether it is
  \<open>instanceof HTMLElement\<close> (an \<open>svg\<close> or \<open>math\<close> element is not).
  Cloning (\<open>cloneNode(true)\<close>) gives an element with the same values, so a clone is
  the element itself.
\<close>

datatype element = Element
  (tagName: string)
  (outerHTML: string)
  (innerHTML: string)
  (children: "element list")
  (textWords: "string list")
  (isHTMLElement: bool)

text \<open>
  Heights are measured, never computed: the code puts a node into the hidden 700px wide
  \<open>tempDiv\<close> and reads \<open>tempDiv.offsetHeight\<close>. The layout engine is a parameter
  of the model:
  \<^item> \<open>offsetHeight L e\<close>: \<open>tempDiv.offsetHeight\<close> after
    \<open>tempDiv.innerHTML = ''; tempDiv.appendChild(e)\<close>;
  \<^item> \<open>textHeight L e s\<close>: \<open>tempDiv.offsetHeight\<close> when \<open>tempDiv\<close> holds the empty
    element with the tag and style of \<open>e\<close> (\<open>innerElem\<close>) after \<open>innerElem.textContent = s\<close>;
  \<^item> \<open>partClone L e s\<close>: the element made by \<open>document.createElement\<close> with the tag
    of \<open>e\<close>, the style of \<open>e\<close> and \<open>textContent = s\<close>.
\<close>

record layout =
  offsetHeight :: "element \<Rightarrow> nat"
  textHeight :: "element \<Rightarrow> string \<Rightarrow> nat"
  partClone :: "element \<Rightarrow> string \<Rightarrow> element"

definition maxHeightPerPage :: nat where
  "maxHeightPerPage = 900"

definition headingThreshold :: nat where
  "headingThreshold = 150"

definition spacing :: nat where
  "spacing = 8"

definition spacerHTML :: string where
  "spacerHTML = ''<div style='' @ [CHR 0x22] @ ''height: 8px;'' @ [CHR 0x22] @ ''></div>''"

text \<open>\<open>isHeading\<close>: the regular expression \<open>/^H[1-6]$/i\<close> on the tag name.\<close>

definition isHeading :: "element \<Rightarrow> bool" where
  "isHeading el =
     (case tagName el of
        [c, d] \<Rightarrow> (c = CHR ''H'' \<or> c = CHR ''h'') \<and> d \<in> set ''123456''
      | _ \<Rightarrow> False)"

section \<open>The state of a pagination run\<close>

text \<open>
  The three local variables of \<open>splitContentIntoPages\<close>: the pages pushed so far, the
  markup of the page being filled and the height the code has counted for it.
\<close>

record pstate =
  pages :: "string list"
  currentPageHTML :: string
  currentHeight :: nat

definition initial :: pstate where
  "initial = \<lparr>pages = [], currentPageHTML = [], currentHeight = 0\<rparr>"

text \<open>\<open>pages.push(currentPageHTML); currentPageHTML = ''; currentHeight = 0\<close>\<close>

definition flush :: "pstate \<Rightarrow> pstate" where
  "flush s = \<lparr>pages = pages s @ [currentPageHTML s], currentPageHTML = [], currentHeight = 0\<rparr>"

text \<open>The heading rule at the top of the loop body.\<close>

definition headingBreak :: "element \<Rightarrow> pstate \<Rightarrow> pstate" where
  "headingBreak e s =
     (if isHeading e then
        (let spaceLeft = int maxHeightPerPage - int (currentHeight s)
         in if spaceLeft < int headingThreshold \<and> currentPageHTML s \<noteq> [] then flush s else s)
      else s)"

text \<open>
  The overflow check followed by the append, as the code writes it for a whole block,
  for a part of a split paragraph and (with the spacer) between blocks.
\<close>

definition place :: "string \<Rightarrow> nat \<Rightarrow> pstate \<Rightarrow> pstate" where
  "place html h s =
     (let s1 = (if currentHeight s + h > maxHeightPerPage \<and> currentPageHTML s \<noteq> []
                then flush s else s)
      in s1\<lparr>currentPageHTML := currentPageHTML s1 @ html, currentHeight := currentHeight s1 + h\<rparr>)"

text \<open>The spacer after every block but the last (\<open>i < blockElements.length - 1\<close>).\<close>

definition addSpacing :: "bool \<Rightarrow> pstate \<Rightarrow> pstate" where
  "addSpacing notLast s = (if notLast then place spacerHTML spacing s else s)"

text \<open>\<open>if (currentPageHTML !== '') pages.push(currentPageHTML)\<close>, then the placeholder.\<close>

definition finish :: "string \<Rightarrow> pstate \<Rightarrow> string list" where
  "finish placeholder s =
     (let ps = (if currentPageHTML s \<noteq> [] then pages s @ [currentPageHTML s] else pages s)
      in if length ps = 0 then [placeholder] else ps)"

section \<open>The paginator of the question-and-answer and generic views\<close>

text \<open>
  \<open>splitContentIntoPages\<close> of \<open>GenericContentView.tsx\<close> and of the question-and-answer
  view: the top-level children are the blocks and no block is split.
\<close>

definition processBlock_qa :: "layout \<Rightarrow> element \<Rightarrow> bool \<Rightarrow> pstate \<Rightarrow> pstate" where
  "processBlock_qa L e notLast s =
     (let elementHeight = offsetHeight L e;
          s1 = headingBreak e s;
          s2 = place (outerHTML e) elementHeight s1
      in addSpacing notLast s2)"

fun loop_qa :: "layout \<Rightarrow> element list \<Rightarrow> pstate \<Rightarrow> pstate" where
  "loop_qa L [] s = s"
| "loop_qa L (e # es) s = loop_qa L es (processBlock_qa L e (es \<noteq> []) s)"

definition placeholder_qa :: string where
  "placeholder_qa = ''<div style='' @ [CHR 0x22]
     @ ''text-align: center; padding: 100px; color: #666; font-style: italic;'' @ [CHR 0x22]
     @ ''>No Q&A available for this chapter.</div>''"

definition placeholder_generic :: string where
  "placeholder_generic = ''<div style='' @ [CHR 0x22]
     @ ''text-align: center; padding: 100px; color: #666; font-style: italic;'' @ [CHR 0x22]
     @ ''>No content available for this chapter.</div>''"

definition placeholder_notes :: string where
  "placeholder_notes = ''<div style='' @ [CHR 0x22]
     @ ''text-align: center; padding: 100px; color: #666; font-style: italic;'' @ [CHR 0x22]
     @ ''>No notes available for this chapter.</div>''"

definition splitContentIntoPages_qa :: "layout \<Rightarrow> element list \<Rightarrow> string list" where
  "splitContentIntoPages_qa L blockElements = finish placeholder_qa (loop_qa L blockElements initial)"

definition splitContentIntoPages_generic :: "layout \<Rightarrow> element list \<Rightarrow> string list" where
  "splitContentIntoPages_generic L blockElements =
     finish placeholder_generic (loop_qa L blockElements initial)"

section \<open>The paginator of the notes view\<close>

text \<open>
  \<open>splitContentIntoPages\<close> of \<open>NoteEditor.tsx\<close>. The blocks are the children of the
  top-level sections that are HTML elements; a section without element children but with
  text becomes one paragraph; when this gives no block at all, the sections themselves
  are the blocks.
\<close>

definition nonBlank :: "element \<Rightarrow> bool" where
  \<comment> \<open>\<open>section.textContent?.trim()\<close> is a non-empty string\<close>
  "nonBlank e = (filter (\<lambda>w. w \<noteq> []) (textWords e) \<noteq> [])"

definition sectionParagraph :: "element \<Rightarrow> element" where
  \<comment> \<open>\<open>p = document.createElement('p'); p.innerHTML = section.innerHTML\<close>\<close>
  "sectionParagraph e =
     Element ''P'' (''<p>'' @ innerHTML e @ ''</p>'') (innerHTML e) [] (textWords e) True"

definition flatBlocks :: "element list \<Rightarrow> element list" where
  "flatBlocks noteSections =
     (let flat = concat (map (\<lambda>e. if length (children e) = 0 \<and> nonBlank e
                                     then [sectionParagraph e]
                                     else filter isHTMLElement (children e)) noteSections)
      in if length flat = 0 \<and> length noteSections > 0 then noteSections else flat)"

subsection \<open>Paragraphs taller than a page: split word by word\<close>

text \<open>
  \<open>String.prototype.trim\<close> on the white space of the ASCII range (space, tab, line feed,
  vertical tab, form feed, carriage return); the words come from a split at white space
  and the only white space the loop adds is the space.
\<close>

definition isSpace :: "char \<Rightarrow> bool" where
  "isSpace c = (c \<in> set [CHR 0x20, CHR 0x09, CHR 0x0A, CHR 0x0B, CHR 0x0C, CHR 0x0D])"

definition trim :: "string \<Rightarrow> string" where
  "trim s = rev (dropWhile isSpace (rev (dropWhile isSpace s)))"

fun wordLoop :: "layout \<Rightarrow> element \<Rightarrow> string list \<Rightarrow> string list \<times> string
    \<Rightarrow> string list \<times> string" where
  "wordLoop L e [] (splitParts, currentPart) = (splitParts, currentPart)"
| "wordLoop L e (word # ws) (splitParts, currentPart) =
     (let testPart = currentPart @ '' '' @ word;
          testHeight = textHeight L e testPart
      in if testHeight > maxHeightPerPage
         then wordLoop L e ws (splitParts @ [trim currentPart], word)
         else wordLoop L e ws (splitParts, testPart))"

definition splitParts :: "layout \<Rightarrow> element \<Rightarrow> string list" where
  "splitParts L e =
     (case wordLoop L e (textWords e) ([], []) of
        (parts, currentPart) \<Rightarrow>
          if currentPart \<noteq> [] then parts @ [trim currentPart] else parts)"

fun placeParts :: "layout \<Rightarrow> element \<Rightarrow> string list \<Rightarrow> pstate \<Rightarrow> pstate" where
  "placeParts L e [] s = s"
| "placeParts L e (part # ps) s =
     (let pc = partClone L e part;
          elementHeight = offsetHeight L pc
      in placeParts L e ps (place (outerHTML pc) elementHeight s))"

subsection \<open>Lists and tables: split item by item, row by row\<close>

text \<open>
  The list loop and the table loop are the same code up to the names: \<open>opening\<close> is
  \<open><ul>\<close>, \<open><ol>\<close> or \<open><table>\<close>, \<open>closing\<close> the matching close tag, and the
  pair carried along with the state is \<open>(currentListHTML, listHeight)\<close>, respectively
  \<open>(tableHTML, tableHeight)\<close>.
\<close>

fun itemLoop :: "layout \<Rightarrow> string \<Rightarrow> string \<Rightarrow> element list \<Rightarrow> pstate \<times> string \<times> nat
    \<Rightarrow> pstate \<times> string \<times> nat" where
  "itemLoop L opening closing [] acc = acc"
| "itemLoop L opening closing (li # lis) (s, currentListHTML, listHeight) =
     (let liHeight = offsetHeight L li
      in if currentHeight s + listHeight + liHeight > maxHeightPerPage \<and> currentPageHTML s \<noteq> []
         then
           (let s1 = (if currentListHTML \<noteq> opening
                      then s\<lparr>currentPageHTML := currentPageHTML s @ currentListHTML @ closing\<rparr>
                      else s)
            in itemLoop L opening closing lis
                 (flush s1, opening @ outerHTML li, 0 + liHeight))
         else itemLoop L opening closing lis
                 (s, currentListHTML @ outerHTML li, listHeight + liHeight))"

definition splitItems :: "layout \<Rightarrow> string \<Rightarrow> string \<Rightarrow> element list \<Rightarrow> pstate \<Rightarrow> pstate" where
  "splitItems L opening closing items s =
     (case itemLoop L opening closing items (s, opening, 0) of
        (s1, currentListHTML, listHeight) \<Rightarrow>
          if currentListHTML \<noteq> opening
          then s1\<lparr>currentPageHTML := currentPageHTML s1 @ currentListHTML @ closing,
                  currentHeight := currentHeight s1 + listHeight\<rparr>
          else s1)"

definition listType :: "element \<Rightarrow> string" where
  \<comment> \<open>\<open>element.tagName.toLowerCase()\<close>, in the branch where the tag is \<open>UL\<close> or \<open>OL\<close>\<close>
  "listType e = (if tagName e = ''UL'' then ''ul'' else ''ol'')"

text \<open>\<open>clone.querySelectorAll('tr')\<close>: the \<open>TR\<close> descendants, in document order.\<close>

fun querySelectorAll_tr :: "element \<Rightarrow> element list" where
  "querySelectorAll_tr (Element t oh ih cs ws h) =
     concat (map (\<lambda>c. (if tagName c = ''TR'' then [c] else []) @ querySelectorAll_tr c) cs)"

subsection \<open>The loop\<close>

definition processBlock_notes :: "layout \<Rightarrow> element \<Rightarrow> bool \<Rightarrow> pstate \<Rightarrow> pstate" where
  "processBlock_notes L e notLast s =
     (let elementHeight = offsetHeight L e;
          s1 = headingBreak e s;
          s2 = (if elementHeight > maxHeightPerPage \<and> (tagName e = ''P'' \<or> tagName e = ''DIV'')
                then placeParts L e (splitParts L e) s1
                else if tagName e = ''UL'' \<or> tagName e = ''OL''
                then splitItems L (''<'' @ listType e @ ''>'') (''</'' @ listType e @ ''>'')
                       (children e) s1
                else if tagName e = ''TABLE''
                then splitItems L ''<table>'' ''</table>'' (querySelectorAll_tr e) s1
                else place (outerHTML e) elementHeight s1)
      in addSpacing notLast s2)"

fun loop_notes :: "layout \<Rightarrow> element list \<Rightarrow> pstate \<Rightarrow> pstate" where
  "loop_notes L [] s = s"
| "loop_notes L (e # es) s = loop_notes L es (processBlock_notes L e (es \<noteq> []) s)"

definition paginate_notes :: "layout \<Rightarrow> element list \<Rightarrow> string list" where
  "paginate_notes L blockElements = finish placeholder_notes (loop_notes L blockElements initial)"

definition splitContentIntoPages_notes :: "layout \<Rightarrow> element list \<Rightarrow> string list" where
  "splitContentIntoPages_notes L noteSections = paginate_notes L (flatBlocks noteSections)"

section \<open>The export job\<close>

subsection \<open>The name of the downloaded file\<close>

text \<open>
  Lesson names are Tamil text, so a JavaScript string is modelled as its list of UTF-16
  code units. \<open>sanitize\<close> is \<open>lessonName.replace(/[^a-zA-Z0-9\u0B80-\u0BFF]/g, '_')\<close>.
\<close>

type_synonym jsstring = "nat list"

definition keepChar :: "nat \<Rightarrow> bool" where
  "keepChar c = ((0x61 \<le> c \<and> c \<le> 0x7A) \<or> (0x41 \<le> c \<and> c \<le> 0x5A) \<or> (0x30 \<le> c \<and> c \<le> 0x39)
                 \<or> (0x0B80 \<le> c \<and> c \<le> 0x0BFF))"

definition sanitize :: "jsstring \<Rightarrow> jsstring" where
  "sanitize lessonName = map (\<lambda>c. if keepChar c then c else 0x5F) lessonName"

definition js :: "string \<Rightarrow> jsstring" where
  \<comment> \<open>an ASCII literal of the source as code units\<close>
  "js s = map of_char s"

text \<open>
  \<open>`${lessonName.replace(...)}_${label}_${new Date().toISOString().slice(0, 10)}.pdf`\<close>;
  the label is the literal \<open>QA\<close> or \<open>Notes\<close>, or \<open>resourceInfo.label\<close> in the
  generic view.
\<close>

definition downloadName :: "jsstring \<Rightarrow> jsstring \<Rightarrow> jsstring \<Rightarrow> jsstring" where
  "downloadName lessonName label isoDate =
     sanitize lessonName @ js ''_'' @ label @ js ''_'' @ isoDate @ js ''.pdf''"

text \<open>\<open>hierarchy?.lessonName || fallback\<close>\<close>

definition lessonNameOr :: "jsstring \<Rightarrow> jsstring \<Rightarrow> jsstring" where
  "lessonNameOr name fallback = (if name = [] then fallback else name)"

subsection \<open>The job and what it awaits\<close>

datatype alertType = Loading | Success | Error

text \<open>
  What a view holds while \<open>handleExportConfirm\<close> runs: the \<open>isExporting\<close> flag, the
  markup inside the offscreen export container (\<open>None\<close> when
  \<open>exportContainerRef.current\<close> is null), the alerts shown, the file names handed to the
  browser for download, the number of submissions to \<open>/api/export/send-pdf\<close>, the calls
  of \<open>api.incrementLessonDownload\<close> (lesson identifier and resource type), the session
  storage, and the \<open>downloads\<close> statistic of the generic view.
\<close>

record estate =
  isExporting :: bool
  container :: "string option"
  alerts :: "alertType list"
  downloaded :: "jsstring list"
  submissions :: nat
  incrementCalls :: "(string \<times> string) list"
  sessionStorage :: "string \<rightharpoonup> string"
  statsDownloads :: "nat option"
  exportModalOpen :: bool

text \<open>
  The job: who exports what. \<open>isAdmin\<close> is \<open>user.role === 'admin' || user.canEdit\<close>;
  \<open>staged\<close> is the markup of the style element and of the page elements that the job
  appends to the export container; \<open>resourceLabel\<close> is \<open>resourceInfo.label\<close> of the
  generic view.
\<close>

record job =
  isAdmin :: bool
  lessonId :: string
  itemCount :: nat
  staged :: string
  resourceLabel :: jsstring

text \<open>
  The outcome of every operation the job awaits: whether \<open>api.getHierarchy\<close> resolves and
  the lesson name it gives (empty when missing), whether \<open>html2canvas\<close> resolves for every
  page, whether \<open>fetch\<close> and \<open>res.json()\<close> resolve, \<open>res.ok\<close>,
  \<open>responseData.success\<close>, what the call of \<open>api.incrementLessonDownload\<close> does, and
  the date.

  The three views import \<open>src/services/api.ts\<close> as \<open>api\<close>, and that module exports no
  \<open>incrementLessonDownload\<close>. So in the sources \<open>api.incrementLessonDownload\<close> is
  undefined and the call expression throws a \<open>TypeError\<close> on the spot, before any
  request is made and before a \<open>.catch\<close> chained to it is reached: this is
  \<open>NotExported\<close>. With a module that exports the function the request is made and its
  promise resolves (\<open>Resolves\<close>) or rejects (\<open>Rejects\<close>).
\<close>

datatype incrementOutcome = NotExported | Resolves | Rejects

record world =
  hierarchyResolves :: bool
  hierarchyLessonName :: jsstring
  rasterizeResolves :: bool
  fetchResolves :: bool
  resOk :: bool
  responseSuccess :: bool
  increment :: incrementOutcome
  isoDate :: jsstring

text \<open>
  The steps of the \<open>try\<close> block up to the finished document, the same in the three
  views: \<open>False\<close> when one of them throws.
\<close>

definition generate :: "world \<Rightarrow> job \<Rightarrow> estate \<Rightarrow> bool \<times> estate" where
  "generate W J s =
     (if \<not> hierarchyResolves W then (False, s)
      else if itemCount J = 0 then (False, s)
      else if container s = None then (False, s)
      else (let s1 = s\<lparr>container := Some (staged J)\<rparr>
            in if \<not> rasterizeResolves W then (False, s1) else (True, s1)))"

text \<open>Sequencing inside the \<open>try\<close> block: a step that throws skips the steps after it.\<close>

definition andThen :: "bool \<times> estate \<Rightarrow> (estate \<Rightarrow> bool \<times> estate) \<Rightarrow> bool \<times> estate" where
  "andThen r f = (case r of (completed, s) \<Rightarrow> if completed then f s else (False, s))"

definition startDownload :: "world \<Rightarrow> jsstring \<Rightarrow> jsstring \<Rightarrow> estate \<Rightarrow> estate" where
  \<comment> \<open>\<open>link.download = ...; link.click()\<close>, with the view's label and fallback lesson name\<close>
  "startDownload W label fallback s =
     s\<lparr>downloaded := downloaded s
          @ [downloadName (lessonNameOr (hierarchyLessonName W) fallback) label (isoDate W)]\<rparr>"

definition submit :: "estate \<Rightarrow> estate" where
  \<comment> \<open>the second loading alert and \<open>fetch('/api/export/send-pdf', ...)\<close>\<close>
  "submit s = s\<lparr>alerts := alerts s @ [Loading], submissions := submissions s + 1\<rparr>"

definition callIncrement :: "string \<Rightarrow> string \<Rightarrow> estate \<Rightarrow> estate" where
  \<comment> \<open>the request that an exported \<open>incrementLessonDownload\<close> makes\<close>
  "callIncrement lesson type s = s\<lparr>incrementCalls := incrementCalls s @ [(lesson, type)]\<rparr>"

definition succeed :: "estate \<Rightarrow> estate" where
  \<comment> \<open>the success alert, then \<open>setExportModalOpen(false)\<close>\<close>
  "succeed s = s\<lparr>alerts := alerts s @ [Success], exportModalOpen := False\<rparr>"

text \<open>The \<open>catch\<close> and \<open>finally\<close> blocks, the same in the three views.\<close>

definition catchFinally :: "bool \<times> estate \<Rightarrow> estate" where
  "catchFinally r =
     (case r of (completed, s) \<Rightarrow>
        (let s1 = (if completed then s else s\<lparr>alerts := alerts s @ [Error]\<rparr>)
         in s1\<lparr>isExporting := False,
               container := (case container s1 of None \<Rightarrow> None | Some h \<Rightarrow> Some [])\<rparr>))"

definition beginExport :: "estate \<Rightarrow> estate" where
  \<comment> \<open>\<open>setIsExporting(true)\<close> and the first loading alert\<close>
  "beginExport s = s\<lparr>isExporting := True, alerts := alerts s @ [Loading]\<rparr>"

subsection \<open>Question-and-answer view\<close>

definition distribute_qa :: "world \<Rightarrow> job \<Rightarrow> estate \<Rightarrow> bool \<times> estate" where
  "distribute_qa W J s =
     (if isAdmin J then
        (let s1 = startDownload W (js ''QA'') (js ''QA'') s
         in \<comment> \<open>\<open>await api.incrementLessonDownload(lessonId, 'qa')\<close>\<close>
            if increment W = NotExported then (False, s1)
            else (let s2 = callIncrement (lessonId J) ''qa'' s1
                  in if increment W = Rejects then (False, s2) else (True, succeed s2)))
      else
        (let s1 = submit s
         in if \<not> fetchResolves W then (False, s1)
            else if resOk W \<and> responseSuccess W
            then \<comment> \<open>\<open>await api.incrementLessonDownload(lessonId, 'qa').catch(() => { })\<close>\<close>
                 (if increment W = NotExported then (False, s1)
                  else (True, succeed (callIncrement (lessonId J) ''qa'' s1)))
            else (False, s1)))"

definition handleExportConfirm_qa :: "world \<Rightarrow> job \<Rightarrow> estate \<Rightarrow> estate" where
  "handleExportConfirm_qa W J s =
     catchFinally (andThen (generate W J (beginExport s)) (distribute_qa W J))"

subsection \<open>Notes view\<close>

definition downloadKey :: "string \<Rightarrow> string" where
  "downloadKey lesson = ''downloaded_'' @ lesson @ ''_notes''"

definition marked :: "estate \<Rightarrow> string \<Rightarrow> bool" where
  \<comment> \<open>\<open>sessionStorage.getItem(downloadKey)\<close> is truthy\<close>
  "marked s k = (case sessionStorage s k of None \<Rightarrow> False | Some v \<Rightarrow> v \<noteq> [])"

definition mark :: "string \<Rightarrow> estate \<Rightarrow> estate" where
  \<comment> \<open>\<open>sessionStorage.setItem(downloadKey, 'true')\<close>\<close>
  "mark k s = s\<lparr>sessionStorage := (sessionStorage s)(k \<mapsto> ''true'')\<rparr>"

definition distribute_notes :: "world \<Rightarrow> job \<Rightarrow> estate \<Rightarrow> bool \<times> estate" where
  "distribute_notes W J s =
     (if isAdmin J then
        (let s1 = startDownload W (js ''Notes'') (js ''Notes'') s;
             \<comment> \<open>the inner \<open>try\<close>: what the call throws is caught and logged\<close>
             s2 = (if \<not> marked s1 (downloadKey (lessonId J))
                   then (if increment W = NotExported then s1
                         else (let s3 = callIncrement (lessonId J) ''notes'' s1
                               in if increment W = Resolves
                                  then mark (downloadKey (lessonId J)) s3 else s3))
                   else s1)
         in (True, succeed s2))
      else
        (let s1 = submit s
         in if \<not> fetchResolves W then (False, s1)
            else if resOk W \<and> responseSuccess W
            then (if \<not> marked s1 (downloadKey (lessonId J))
                  then \<comment> \<open>\<open>await api.incrementLessonDownload(...).catch(() => { })\<close>, then the marker\<close>
                       (if increment W = NotExported then (False, s1)
                        else (True, succeed (mark (downloadKey (lessonId J))
                                               (callIncrement (lessonId J) ''notes'' s1))))
                  else (True, succeed s1))
            else (False, s1)))"

definition handleExportConfirm_notes :: "world \<Rightarrow> job \<Rightarrow> estate \<Rightarrow> estate" where
  "handleExportConfirm_notes W J s =
     catchFinally (andThen (generate W J (beginExport s)) (distribute_notes W J))"

subsection \<open>Generic view\<close>

definition bumpStats :: "estate \<Rightarrow> estate" where
  \<comment> \<open>\<open>setStats(prev => prev ? {...prev, downloads: prev.downloads + 1} : {count: 0, downloads: 1})\<close>\<close>
  "bumpStats s =
     s\<lparr>statsDownloads := Some (case statsDownloads s of None \<Rightarrow> 1 | Some d \<Rightarrow> d + 1)\<rparr>"

definition distribute_generic :: "world \<Rightarrow> job \<Rightarrow> string \<Rightarrow> estate \<Rightarrow> bool \<times> estate" where
  "distribute_generic W J resourceType s =
     (if isAdmin J then
        (let s1 = startDownload W (resourceLabel J) (resourceLabel J) s
         in \<comment> \<open>\<open>api.incrementLessonDownload(lessonId, resourceType).catch(console.error)\<close>\<close>
            if increment W = NotExported then (False, s1)
            else (True, succeed (bumpStats (callIncrement (lessonId J) resourceType s1))))
      else
        (let s1 = submit s
         in if \<not> fetchResolves W then (False, s1)
            else if resOk W \<and> responseSuccess W
            then (if increment W = NotExported then (False, s1)
                  else (True, succeed (bumpStats (callIncrement (lessonId J) resourceType s1))))
            else (False, s1)))"

definition handleExportConfirm_generic :: "world \<Rightarrow> job \<Rightarrow> string \<Rightarrow> estate \<Rightarrow> estate" where
  "handleExportConfirm_generic W J resourceType s =
     catchFinally (andThen (generate W J (beginExport s)) (distribute_generic W J resourceType))"

text \<open>A job has succeeded when the last alert it showed is the success alert.\<close>

definition succeeded :: "estate \<Rightarrow> bool" where
  "succeeded s = (alerts s \<noteq> [] \<and> last (alerts s) = Success)"

section \<open>Lists and tables, in the words of the specification\<close>

text \<open>
  The specification speaks of a list or table split across N pages as N fragments, each
  with its own open and close tag. \<open>spec_fragment\<close> is such a fragment around some of
  the items; \<open>spec_emit\<close> writes fragments to the page being filled with a page break
  after each fragment but the last.
\<close>

definition spec_fragment :: "string \<Rightarrow> string \<Rightarrow> element list \<Rightarrow> string" where
  "spec_fragment opening closing items = opening @ concat (map outerHTML items) @ closing"

fun spec_emit :: "string list \<Rightarrow> string list \<times> string \<Rightarrow> string list \<times> string" where
  "spec_emit [] (ps, cur) = (ps, cur)"
| "spec_emit [f] (ps, cur) = (ps, cur @ f)"
| "spec_emit (f # fs) (ps, cur) = spec_emit fs (ps @ [cur @ f], [])"

text \<open>The markup and the measured height of a run of items.\<close>

definition itemsHTML :: "element list \<Rightarrow> string" where
  "itemsHTML items = concat (map outerHTML items)"

definition itemsHeight :: "layout \<Rightarrow> element list \<Rightarrow> nat" where
  "itemsHeight L items = sum_list (map (offsetHeight L) items)"

section \<open>The blocks on the pages, in the words of the specification\<close>

text \<open>
  The specification asks that the pages, read in order, hold the block sequence.
  \<open>joined\<close> puts a separator between the members of a list. \<open>tiles ps cur d\<close> says
  that the pushed pages \<open>ps\<close> and the open page \<open>cur\<close> are consecutive runs of the
  pieces \<open>d\<close>: every piece is on exactly one page, whole, and in order. \<open>spaced\<close>
  writes words with a space before each. \<open>rebuilt L e c\<close> says what pieces \<open>c\<close> the
  notes view writes for the block \<open>e\<close>: its markup as it is, or, for a list or table,
  fragments holding the items in order, or, for a paragraph taller than a page, plain-text
  elements holding the words of its text in order (up to an empty last word).
\<close>

definition spaced :: "string list \<Rightarrow> string" where
  "spaced ws = concat (map (\<lambda>w. '' '' @ w) ws)"

definition rebuilt :: "layout \<Rightarrow> element \<Rightarrow> string list \<Rightarrow> bool" where
  "rebuilt L e c =
     (if offsetHeight L e > maxHeightPerPage \<and> (tagName e = ''P'' \<or> tagName e = ''DIV'')
      then (\<exists>wgs. (concat wgs = textWords e \<or> concat wgs @ [[]] = textWords e)
                \<and> c = map (\<lambda>g. outerHTML (partClone L e (trim (spaced g)))) wgs)
      else if tagName e = ''UL'' \<or> tagName e = ''OL''
      then (\<exists>gs. concat gs = children e \<and> [] \<notin> set gs
                \<and> c = map (spec_fragment (''<'' @ listType e @ ''>'') (''</'' @ listType e @ ''>'')) gs)
      else if tagName e = ''TABLE''
      then (\<exists>gs. concat gs = querySelectorAll_tr e \<and> [] \<notin> set gs
                \<and> c = map (spec_fragment ''<table>'' ''</table>'') gs)
      else c = [outerHTML e])"

fun joined :: "'a \<Rightarrow> 'a list \<Rightarrow> 'a list" where
  "joined sep [] = []"
| "joined sep [x] = [x]"
| "joined sep (x # y # ys) = x # sep # joined sep (y # ys)"

definition tiles :: "string list \<Rightarrow> string \<Rightarrow> string list \<Rightarrow> bool" where
  "tiles ps cur d = (\<exists>gs g. ps = map concat gs \<and> cur = concat g \<and> concat gs @ g = d)"

section \<open>The page budget, in the words of the specification\<close>

text \<open>
  A piece is markup with its measured height: a block (\<open>blockPiece\<close>) or the 8px spacer
  (\<open>spacerPiece\<close>). A page, as a run of pieces, has its markup (\<open>render\<close>) and its
  cumulative measured height (\<open>height\<close>). \<open>fits\<close> is the budget rule of the
  specification: the height is at most 900px, or the page is one block that is by itself
  taller than that. \<open>budgeted\<close> says that the pushed pages and the open page of a state
  are consecutive runs of the pieces \<open>d\<close>, that every one of them fits, and that
  \<open>currentHeight\<close> is the height of the open page.
\<close>

type_synonym piece = "string \<times> nat"

definition render :: "piece list \<Rightarrow> string" where
  "render g = concat (map fst g)"

definition height :: "piece list \<Rightarrow> nat" where
  "height g = sum_list (map snd g)"

definition blockPiece :: "layout \<Rightarrow> element \<Rightarrow> piece" where
  "blockPiece L b = (outerHTML b, offsetHeight L b)"

definition spacerPiece :: piece where
  "spacerPiece = (spacerHTML, spacing)"

definition fits :: "layout \<Rightarrow> element list \<Rightarrow> piece list \<Rightarrow> bool" where
  "fits L blocks g =
     (height g \<le> maxHeightPerPage
      \<or> (\<exists>b\<in>set blocks. g = [blockPiece L b] \<and> offsetHeight L b > maxHeightPerPage))"

definition budgeted :: "layout \<Rightarrow> element list \<Rightarrow> pstate \<Rightarrow> piece list \<Rightarrow> bool" where
  "budgeted L B s d =
     (\<exists>gs g. pages s = map render gs \<and> currentPageHTML s = render g
        \<and> currentHeight s = height g \<and> concat gs @ g = d
        \<and> (\<forall>g'\<in>set gs. fits L B g') \<and> fits L B g \<and> [] \<notin> fst ` set g)"

section \<open>What a run has written\<close>

text \<open>
  \<open>stream\<close> is all the markup a run has written so far, the pushed pages followed by the
  open page; \<open>writtenPages\<close> are the pushed pages and, when it is not empty, the open
  page.
\<close>

definition stream :: "pstate \<Rightarrow> string" where
  "stream s = concat (pages s) @ currentPageHTML s"

definition writtenPages :: "pstate \<Rightarrow> string list" where
  "writtenPages s = pages s @ (if currentPageHTML s = [] then [] else [currentPageHTML s])"

section \<open>What a run measures\<close>

text \<open>
  Two layout engines give the same measurements for a block of the notes view when they
  agree on everything the paginator can ask them about it: the height of the block, of
  its items and of its table rows, and, for every text, the height of the text in the
  block's tag, the part element made for it and that element's height.
\<close>

definition sameMeasurements :: "layout \<Rightarrow> layout \<Rightarrow> element \<Rightarrow> bool" where
  "sameMeasurements L1 L2 e =
     (offsetHeight L1 e = offsetHeight L2 e
      \<and> (\<forall>i\<in>set (children e). offsetHeight L1 i = offsetHeight L2 i)
      \<and> (\<forall>r\<in>set (querySelectorAll_tr e). offsetHeight L1 r = offsetHeight L2 r)
      \<and> (\<forall>t. textHeight L1 e t = textHeight L2 e t
               \<and> partClone L1 e t = partClone L2 e t
               \<and> offsetHeight L1 (partClone L1 e t) = offsetHeight L2 (partClone L1 e t)))"

section \<open>Concrete inputs\<close>

text \<open>
  A world in which every awaited operation resolves and the api module exports
  \<open>incrementLessonDownload\<close>; the world of the sources, in which every awaited operation
  resolves and the api module is \<open>src/services/api.ts\<close>, without that function; an
  administrator's job on the lesson \<open>L1\<close> whose name is the Tamil word for "Tamil"
  followed by \<open> 1\<close>; the same job for a plain user; and a view that has not exported yet.
\<close>

definition world_ok :: world where
  "world_ok = \<lparr>hierarchyResolves = True,
     hierarchyLessonName = [0x0BA4, 0x0BAE, 0x0BBF, 0x0BB4, 0x0BCD, 0x20, 0x31],
     rasterizeResolves = True, fetchResolves = True, resOk = True, responseSuccess = True,
     increment = Resolves, isoDate = js ''2024-01-15''\<rparr>"

definition world_sources :: world where
  "world_sources = world_ok\<lparr>increment := NotExported\<rparr>"

definition job_admin :: job where
  "job_admin = \<lparr>isAdmin = True, lessonId = ''L1'', itemCount = 2, staged = ''<style></style>'',
     resourceLabel = js ''Worksheet''\<rparr>"

definition job_user :: job where
  "job_user = job_admin\<lparr>isAdmin := False\<rparr>"

definition view_idle :: estate where
  "view_idle = \<lparr>isExporting = False, container = Some [], alerts = [], downloaded = [],
     submissions = 0, incrementCalls = [], sessionStorage = Map.empty, statsDownloads = None,
     exportModalOpen = False\<rparr>"

text \<open>
  A layout engine in which a list item is 60px tall, a paragraph that holds an element (a
  tall figure) 1000px, a paragraph of plain text 30px and any other block 40px; and a
  second-level heading met when 800px of the page are taken.
\<close>

definition layout_example :: layout where
  "layout_example =
     \<lparr>offsetHeight = (\<lambda>e. if tagName e = ''LI'' then 60
                           else if tagName e = ''P'' then (if children e = [] then 30 else 1000)
                           else 40),
      textHeight = (\<lambda>e s. 30),
      partClone = (\<lambda>e s. Element (tagName e) (''<p>'' @ s @ ''</p>'') s [] [s] True)\<rparr>"

definition heading_example :: element where
  "heading_example = Element ''H2'' ''<h2>Title</h2>'' ''Title'' [] [''Title''] True"

definition page_nearly_full :: pstate where
  "page_nearly_full = \<lparr>pages = [], currentPageHTML = ''<div>intro</div>'', currentHeight = 800\<rparr>"

text \<open>
  List items of 60px each: three of them, and the note section of scenario C, whose only
  block is an unordered list of twenty.
\<close>

definition li_example :: "string \<Rightarrow> element" where
  "li_example t = Element ''LI'' (''<li>'' @ t @ ''</li>'') t [] [t] True"

definition three_items :: "element list" where
  "three_items = [li_example ''a'', li_example ''b'', li_example ''c'']"

definition list_of_twenty :: element where
  "list_of_twenty =
     Element ''UL'' (''<ul>'' @ concat (replicate 20 ''<li>x</li>'') @ ''</ul>'')
       (concat (replicate 20 ''<li>x</li>'')) (replicate 20 (li_example ''x'')) (replicate 20 ''x'')
       True"

definition section_of_twenty :: element where
  "section_of_twenty =
     Element ''DIV'' (''<div>'' @ outerHTML list_of_twenty @ ''</div>'') (outerHTML list_of_twenty)
       [list_of_twenty] (replicate 20 ''x'') True"

text \<open>
  A second layout engine, which differs from the first only on \<open>SPAN\<close> elements; a list
  of the three items; and a note section holding the heading and that list.
\<close>

definition layout_other :: layout where
  "layout_other = layout_example\<lparr>offsetHeight :=
      (\<lambda>e. if tagName e = ''SPAN'' then 7 else offsetHeight layout_example e)\<rparr>"

definition list_of_three :: element where
  "list_of_three = Element ''UL'' ''<ul><li>a</li><li>b</li><li>c</li></ul>''
      ''<li>a</li><li>b</li><li>c</li>'' three_items [''a'', ''b'', ''c''] True"

definition section_example :: element where
  "section_example =
     Element ''DIV'' (''<div>'' @ outerHTML heading_example @ outerHTML list_of_three @ ''</div>'')
       (outerHTML heading_example @ outerHTML list_of_three) [heading_example, list_of_three]
       [''Title'', ''a'', ''b'', ''c''] True"

text \<open>A paragraph with a word and a figure, 1000px tall, and the note section holding it.\<close>

definition figure_example :: element where
  "figure_example = Element ''IMG''
     (''<img src='' @ [CHR 0x22] @ ''fig.png'' @ [CHR 0x22]
        @ '' height='' @ [CHR 0x22] @ ''1000'' @ [CHR 0x22] @ ''>'') [] [] [[]] True"

definition paragraph_with_figure :: element where
  "paragraph_with_figure = Element ''P'' (''<p>Intro'' @ outerHTML figure_example @ ''</p>'')
     (''Intro'' @ outerHTML figure_example) [figure_example] [''Intro''] True"

definition section_with_figure :: element where
  "section_with_figure = Element ''DIV'' (''<div>'' @ outerHTML paragraph_with_figure @ ''</div>'')
     (outerHTML paragraph_with_figure) [paragraph_with_figure] [''Intro''] True"

text \<open>A list without items, and a note section holding two of them.\<close>

definition empty_list :: element where
  "empty_list = Element ''UL'' ''<ul></ul>'' [] [] [[]] True"

definition section_of_empty_lists :: element where
  "section_of_empty_lists =
     Element ''DIV'' ''<div><ul></ul><ul></ul></div>'' ''<ul></ul><ul></ul>''
       [empty_list, empty_list] [[]] True"

lemmas export_defs =
  handleExportConfirm_qa_def handleExportConfirm_notes_def handleExportConfirm_generic_def
  beginExport_def generate_def andThen_def distribute_qa_def distribute_notes_def
  distribute_generic_def startDownload_def submit_def callIncrement_def succeed_def
  catchFinally_def bumpStats_def marked_def mark_def downloadKey_def succeeded_def Let_def

lemmas example_defs = world_ok_def world_sources_def job_admin_def job_user_def view_idle_def

section \<open>The paginators: pages are never empty, and there is always one\<close>

lemma headingBreak_nonempty: "[] \<notin> set (pages s) \<Longrightarrow> [] \<notin> set (pages (headingBreak e s))"
  by (auto simp: headingBreak_def Let_def flush_def)

lemma place_nonempty: "[] \<notin> set (pages s) \<Longrightarrow> [] \<notin> set (pages (place h n s))"
  by (auto simp: place_def Let_def flush_def)

lemma addSpacing_nonempty: "[] \<notin> set (pages s) \<Longrightarrow> [] \<notin> set (pages (addSpacing b s))"
  by (simp add: addSpacing_def place_nonempty)

lemma processBlock_qa_nonempty:
  "[] \<notin> set (pages s) \<Longrightarrow> [] \<notin> set (pages (processBlock_qa L e b s))"
  by (simp add: processBlock_qa_def Let_def addSpacing_nonempty place_nonempty headingBreak_nonempty)

lemma loop_qa_nonempty: "[] \<notin> set (pages s) \<Longrightarrow> [] \<notin> set (pages (loop_qa L es s))"
  by (induction es arbitrary: s) (simp_all add: processBlock_qa_nonempty)

lemma finish_nonempty: "ph \<noteq> [] \<Longrightarrow> [] \<notin> set (pages s) \<Longrightarrow> [] \<notin> set (finish ph s)"
  by (simp add: finish_def Let_def)

lemma placeParts_nonempty: "[] \<notin> set (pages s) \<Longrightarrow> [] \<notin> set (pages (placeParts L e ps s))"
  by (induction ps arbitrary: s) (simp_all add: Let_def place_nonempty)

lemma itemLoop_nonempty:
  "[] \<notin> set (pages (fst acc)) \<Longrightarrow> [] \<notin> set (pages (fst (itemLoop L opn cls items acc)))"
proof (induction items arbitrary: acc)
  case Nil
  then show ?case by simp
next
  case (Cons li lis)
  obtain s c h where acc: "acc = (s, c, h)" by (cases acc)
  show ?case using Cons.prems unfolding acc
    by (auto simp: Let_def flush_def intro!: Cons.IH)
qed

lemma splitItems_nonempty:
  "[] \<notin> set (pages s) \<Longrightarrow> [] \<notin> set (pages (splitItems L opn cls items s))"
  using itemLoop_nonempty[of "(s, opn, 0)" L opn cls items]
  by (auto simp: splitItems_def split: prod.splits)

lemma processBlock_notes_nonempty:
  "[] \<notin> set (pages s) \<Longrightarrow> [] \<notin> set (pages (processBlock_notes L e b s))"
  by (simp add: processBlock_notes_def Let_def addSpacing_nonempty place_nonempty
      headingBreak_nonempty placeParts_nonempty splitItems_nonempty)

lemma loop_notes_nonempty: "[] \<notin> set (pages s) \<Longrightarrow> [] \<notin> set (pages (loop_notes L es s))"
  by (induction es arbitrary: s) (simp_all add: processBlock_notes_nonempty)

lemma placeholders_nonempty:
  "placeholder_qa \<noteq> []" "placeholder_generic \<noteq> []" "placeholder_notes \<noteq> []"
  by (simp_all add: placeholder_qa_def placeholder_generic_def placeholder_notes_def)

text \<open>
  C9. No page that a paginator returns is the empty string, for any blocks and any layout
  engine: a page is pushed only when \<open>currentPageHTML\<close> is not empty, and the placeholder
  is not empty.
\<close>

theorem pages_never_empty:
  "[] \<notin> set (splitContentIntoPages_qa L blocks)
   \<and> [] \<notin> set (splitContentIntoPages_generic L blocks)
   \<and> [] \<notin> set (splitContentIntoPages_notes L noteSections)"
  by (simp add: splitContentIntoPages_qa_def splitContentIntoPages_generic_def
      splitContentIntoPages_notes_def paginate_notes_def finish_nonempty placeholders_nonempty
      loop_qa_nonempty loop_notes_nonempty initial_def)

lemma finish_not_Nil: "finish ph s \<noteq> []"
  by (simp add: finish_def Let_def)

lemma stream_flush: "stream (flush s) = stream s"
  by (simp add: stream_def flush_def)

lemma stream_place: "stream (place h n s) = stream s @ h"
  by (simp add: stream_def place_def flush_def Let_def)

lemma stream_headingBreak: "stream (headingBreak e s) = stream s"
  by (simp add: headingBreak_def Let_def stream_flush)

lemma stream_addSpacing: "stream (addSpacing b s) = stream s @ (if b then spacerHTML else [])"
  by (simp add: addSpacing_def stream_place)

lemma stream_placeParts: "stream s \<noteq> [] \<Longrightarrow> stream (placeParts L e ps s) \<noteq> []"
  by (induction ps arbitrary: s) (simp_all add: Let_def stream_place)

lemma stream_itemLoop:
  "stream (fst acc) \<noteq> [] \<Longrightarrow> stream (fst (itemLoop L opn cls items acc)) \<noteq> []"
proof (induction items arbitrary: acc)
  case Nil
  then show ?case by simp
next
  case (Cons li lis)
  obtain s c h where acc: "acc = (s, c, h)" by (cases acc)
  have "stream (flush (s\<lparr>currentPageHTML := currentPageHTML s @ c @ cls\<rparr>)) = stream s @ c @ cls"
    by (simp add: stream_def flush_def)
  then have "stream (flush (s\<lparr>currentPageHTML := currentPageHTML s @ c @ cls\<rparr>)) \<noteq> []"
    "stream (flush s) \<noteq> []"
    using Cons.prems unfolding acc by (simp_all add: stream_flush)
  then show ?case using Cons.prems unfolding acc
    by (auto simp: Let_def intro!: Cons.IH)
qed

lemma stream_splitItems:
  "stream s \<noteq> [] \<Longrightarrow> stream (splitItems L opn cls items s) \<noteq> []"
  using stream_itemLoop[of "(s, opn, 0)" L opn cls items]
  by (auto simp: splitItems_def stream_def split: prod.splits)

lemma stream_processBlock_qa:
  "stream s \<noteq> [] \<or> b \<Longrightarrow> stream (processBlock_qa L e b s) \<noteq> []"
  by (auto simp: processBlock_qa_def Let_def stream_addSpacing stream_place stream_headingBreak
      spacerHTML_def)

lemma stream_processBlock_notes:
  "stream s \<noteq> [] \<or> b \<Longrightarrow> stream (processBlock_notes L e b s) \<noteq> []"
  by (auto simp: processBlock_notes_def Let_def stream_addSpacing stream_place
      stream_headingBreak stream_placeParts stream_splitItems spacerHTML_def)

lemma stream_loop_qa: "stream s \<noteq> [] \<or> length es \<ge> 2 \<Longrightarrow> stream (loop_qa L es s) \<noteq> []"
proof (induction es arbitrary: s)
  case Nil
  then show ?case by simp
next
  case (Cons e es)
  have "stream (processBlock_qa L e (es \<noteq> []) s) \<noteq> []"
    using Cons.prems by (intro stream_processBlock_qa) auto
  then show ?case by (simp add: Cons.IH)
qed

lemma stream_loop_notes:
  "stream s \<noteq> [] \<or> length es \<ge> 2 \<Longrightarrow> stream (loop_notes L es s) \<noteq> []"
proof (induction es arbitrary: s)
  case Nil
  then show ?case by simp
next
  case (Cons e es)
  have "stream (processBlock_notes L e (es \<noteq> []) s) \<noteq> []"
    using Cons.prems by (intro stream_processBlock_notes) auto
  then show ?case by (simp add: Cons.IH)
qed

lemma finish_stream:
  assumes "[] \<notin> set (pages s)"
  shows "(stream s = [] \<longrightarrow> finish ph s = [ph])
       \<and> (stream s \<noteq> [] \<longrightarrow> finish ph s = writtenPages s)"
proof (intro conjI impI)
  assume "stream s = []"
  then have "concat (pages s) = []" "currentPageHTML s = []" by (simp_all add: stream_def)
  moreover from this(1) assms have "pages s = []" by (cases "pages s") auto
  ultimately show "finish ph s = [ph]" by (simp add: finish_def)
next
  assume "stream s \<noteq> []"
  then have "pages s \<noteq> [] \<or> currentPageHTML s \<noteq> []" by (auto simp: stream_def)
  then show "finish ph s = writtenPages s"
    by (auto simp: finish_def writtenPages_def Let_def)
qed

text \<open>
  C5, as the code has it. A paginator returns exactly one page, its placeholder, when the
  run has written no markup at all, and otherwise the pages written, whose markup together
  is the markup written. Nothing is written on zero blocks, and in the notes view by a
  single list without items. But two or more blocks always write the spacer between them,
  also when no block writes anything, and then the written pages are returned and not the
  placeholder. No paginator ever returns zero pages.
\<close>

theorem placeholder_when_nothing_written:
  "(stream (loop_qa L blocks initial) = [] \<longrightarrow>
       splitContentIntoPages_qa L blocks = [placeholder_qa]
       \<and> splitContentIntoPages_generic L blocks = [placeholder_generic])
   \<and> (stream (loop_qa L blocks initial) \<noteq> [] \<longrightarrow>
       splitContentIntoPages_qa L blocks = writtenPages (loop_qa L blocks initial)
       \<and> splitContentIntoPages_generic L blocks = writtenPages (loop_qa L blocks initial))
   \<and> (stream (loop_notes L blocks initial) = [] \<longrightarrow>
       paginate_notes L blocks = [placeholder_notes])
   \<and> (stream (loop_notes L blocks initial) \<noteq> [] \<longrightarrow>
       paginate_notes L blocks = writtenPages (loop_notes L blocks initial))
   \<and> concat (writtenPages s) = stream s
   \<and> stream (loop_qa L [] initial) = []
   \<and> stream (loop_notes L [] initial) = []
   \<and> splitContentIntoPages_qa L [] = [placeholder_qa]
   \<and> splitContentIntoPages_generic L [] = [placeholder_generic]
   \<and> splitContentIntoPages_notes L [] = [placeholder_notes]
   \<and> stream (loop_notes L [Element ''UL'' oh ih [] ws h] initial) = []
   \<and> paginate_notes L [Element ''UL'' oh ih [] ws h] = [placeholder_notes]
   \<and> (length blocks \<ge> 2 \<longrightarrow>
       stream (loop_qa L blocks initial) \<noteq> [] \<and> stream (loop_notes L blocks initial) \<noteq> [])
   \<and> length (splitContentIntoPages_qa L blocks) \<ge> 1
   \<and> length (splitContentIntoPages_generic L blocks) \<ge> 1
   \<and> length (splitContentIntoPages_notes L noteSections) \<ge> 1"
proof -
  have ne0: "[] \<notin> set (pages initial)" by (simp add: initial_def)
  note qa = finish_stream[OF loop_qa_nonempty[OF ne0], of L blocks]
  note nt = finish_stream[OF loop_notes_nonempty[OF ne0], of L blocks]
  have w: "concat (writtenPages s) = stream s"
    by (simp add: writtenPages_def stream_def)
  have e1: "stream (loop_qa L [] initial) = []" "stream (loop_notes L [] initial) = []"
    by (simp_all add: stream_def initial_def)
  have e2: "splitContentIntoPages_notes L [] = [placeholder_notes]"
    "splitContentIntoPages_qa L [] = [placeholder_qa]"
    "splitContentIntoPages_generic L [] = [placeholder_generic]"
    by (simp_all add: splitContentIntoPages_notes_def splitContentIntoPages_qa_def
        splitContentIntoPages_generic_def paginate_notes_def flatBlocks_def
        finish_def initial_def)
  have e4: "paginate_notes L [Element ''UL'' oh ih [] ws h] = [placeholder_notes]"
    by (simp add: paginate_notes_def processBlock_notes_def headingBreak_def isHeading_def
        splitItems_def addSpacing_def finish_def initial_def Let_def)
  have e3: "stream (loop_notes L [Element ''UL'' oh ih [] ws h] initial) = []"
    by (simp add: processBlock_notes_def headingBreak_def isHeading_def
        splitItems_def addSpacing_def stream_def initial_def Let_def)
  have two: "length blocks \<ge> 2 \<longrightarrow>
       stream (loop_qa L blocks initial) \<noteq> [] \<and> stream (loop_notes L blocks initial) \<noteq> []"
    using stream_loop_qa[of initial blocks L] stream_loop_notes[of initial blocks L] by blast
  have len: "\<And>ph t. length (finish ph t) \<ge> 1"
    using finish_not_Nil by (simp add: Suc_le_eq)
  show ?thesis
    using qa nt w e1 e2 e3 e4 two len
    unfolding splitContentIntoPages_qa_def splitContentIntoPages_generic_def
      splitContentIntoPages_notes_def paginate_notes_def
    by blast
qed

theorem placeholder_when_nothing_written_witness:
  "stream (loop_qa layout_example [] initial) = []
   \<and> splitContentIntoPages_qa layout_example [] = [placeholder_qa]
   \<and> splitContentIntoPages_generic layout_example [] = [placeholder_generic]
   \<and> stream (loop_notes layout_example [empty_list] initial) = []
   \<and> paginate_notes layout_example [empty_list] = [placeholder_notes]
   \<and> length [empty_list, empty_list] \<ge> 2
   \<and> stream (loop_notes layout_example [empty_list, empty_list] initial) \<noteq> []
   \<and> paginate_notes layout_example [empty_list, empty_list]
       = writtenPages (loop_notes layout_example [empty_list, empty_list] initial)
   \<and> stream (loop_qa layout_example [heading_example, list_of_three] initial) \<noteq> []
   \<and> splitContentIntoPages_qa layout_example [heading_example, list_of_three]
       = writtenPages (loop_qa layout_example [heading_example, list_of_three] initial)"
proof -
  have a: "stream (loop_notes layout_example [empty_list] initial) = []"
    by (simp add: empty_list_def processBlock_notes_def headingBreak_def isHeading_def
        splitItems_def addSpacing_def stream_def initial_def Let_def)
  have b: "length [empty_list, empty_list] \<ge> 2" "length [heading_example, list_of_three] \<ge> 2"
    by simp_all
  note t = placeholder_when_nothing_written[where L = layout_example and s = initial
      and oh = "[]" and ih = "[]" and ws = "[]" and h = True and noteSections = "[]"]
  have 0: "stream (loop_qa layout_example [] initial) = []
      \<and> splitContentIntoPages_qa layout_example [] = [placeholder_qa]
      \<and> splitContentIntoPages_generic layout_example [] = [placeholder_generic]"
    using t[of "[]"] by simp
  have 1: "paginate_notes layout_example [empty_list] = [placeholder_notes]"
    using t[of "[empty_list]"] a by simp
  have 2: "stream (loop_notes layout_example [empty_list, empty_list] initial) \<noteq> []
      \<and> paginate_notes layout_example [empty_list, empty_list]
          = writtenPages (loop_notes layout_example [empty_list, empty_list] initial)"
    using t[of "[empty_list, empty_list]"] b(1) by simp
  have 3: "stream (loop_qa layout_example [heading_example, list_of_three] initial) \<noteq> []
      \<and> splitContentIntoPages_qa layout_example [heading_example, list_of_three]
          = writtenPages (loop_qa layout_example [heading_example, list_of_three] initial)"
    using t[of "[heading_example, list_of_three]"] b(2) by simp
  from 0 1 2 3 a b show ?thesis by simp
qed

text \<open>
  C5 as stated fails in the notes view: a list without items writes nothing on a page, but
  for two such lists the result is a page that holds the spacer between them, not the
  placeholder page.
\<close>

theorem two_empty_lists_give_a_spacer_page:
  "paginate_notes layout_example [empty_list] = [placeholder_notes]
   \<and> splitContentIntoPages_notes layout_example [section_of_empty_lists] = [spacerHTML]"
  by (simp add: splitContentIntoPages_notes_def flatBlocks_def section_of_empty_lists_def
      empty_list_def paginate_notes_def processBlock_notes_def headingBreak_def isHeading_def
      splitItems_def addSpacing_def place_def finish_def initial_def Let_def spacing_def
      maxHeightPerPage_def spacerHTML_def)

section \<open>The heading rule\<close>

lemma heading_not_split_tag:
  "isHeading e \<Longrightarrow> tagName e \<noteq> ''P'' \<and> tagName e \<noteq> ''DIV'' \<and> tagName e \<noteq> ''UL''
     \<and> tagName e \<noteq> ''OL'' \<and> tagName e \<noteq> ''TABLE''"
  by (auto simp: isHeading_def split: list.splits)

lemma heading_then_place:
  assumes "isHeading e" "int maxHeightPerPage - int (currentHeight s) < int headingThreshold"
    "currentPageHTML s \<noteq> []"
  shows "addSpacing b (place (outerHTML e) h (headingBreak e s)) =
     addSpacing b \<lparr>pages = pages s @ [currentPageHTML s], currentPageHTML = outerHTML e,
       currentHeight = h\<rparr>"
  using assms by (simp add: headingBreak_def Let_def flush_def place_def)

lemma addSpacing_shape:
  "\<exists>rest. pages (addSpacing b \<lparr>pages = ps, currentPageHTML = c, currentHeight = h\<rparr>)
            @ [currentPageHTML (addSpacing b \<lparr>pages = ps, currentPageHTML = c, currentHeight = h\<rparr>)]
          = ps @ rest \<and> rest \<noteq> [] \<and> prefix c (hd rest)"
  by (auto simp: addSpacing_def place_def Let_def flush_def)

text \<open>
  C4. When the block is a heading, fewer than 150px are left on the page
  (\<open>900 - currentHeight < 150\<close>) and the page is not empty, one pass of the loop body, in
  the generic paginator and in the notes paginator, pushes the page as it is and the next
  page begins with the heading: the pages and the open page after the pass are the pages
  before, the old open page, and then pages of which the first starts with the heading's
  markup. The heading rule is the first step of the body, before the overflow check.
\<close>

theorem heading_starts_new_page:
  assumes "isHeading e"
    and "int maxHeightPerPage - int (currentHeight s) < int headingThreshold"
    and "currentPageHTML s \<noteq> []"
  shows "(\<exists>rest. pages (processBlock_qa L e notLast s)
                  @ [currentPageHTML (processBlock_qa L e notLast s)]
              = pages s @ [currentPageHTML s] @ rest
            \<and> rest \<noteq> [] \<and> prefix (outerHTML e) (hd rest))
       \<and> (\<exists>rest. pages (processBlock_notes L e notLast s)
                  @ [currentPageHTML (processBlock_notes L e notLast s)]
              = pages s @ [currentPageHTML s] @ rest
            \<and> rest \<noteq> [] \<and> prefix (outerHTML e) (hd rest))"
proof -
  have qa: "processBlock_qa L e notLast s =
      addSpacing notLast \<lparr>pages = pages s @ [currentPageHTML s], currentPageHTML = outerHTML e,
         currentHeight = offsetHeight L e\<rparr>"
    using heading_then_place[OF assms] by (simp add: processBlock_qa_def Let_def)
  have nt: "processBlock_notes L e notLast s =
      addSpacing notLast \<lparr>pages = pages s @ [currentPageHTML s], currentPageHTML = outerHTML e,
         currentHeight = offsetHeight L e\<rparr>"
    using heading_then_place[OF assms] heading_not_split_tag[OF assms(1)]
    by (simp add: processBlock_notes_def Let_def)
  from addSpacing_shape[of notLast "pages s @ [currentPageHTML s]" "outerHTML e" "offsetHeight L e"]
  show ?thesis unfolding qa nt by simp
qed

theorem heading_starts_new_page_witness:
  "isHeading heading_example
   \<and> int maxHeightPerPage - int (currentHeight page_nearly_full) < int headingThreshold
   \<and> currentPageHTML page_nearly_full \<noteq> []
   \<and> (\<exists>rest. pages (processBlock_qa layout_example heading_example True page_nearly_full)
                  @ [currentPageHTML (processBlock_qa layout_example heading_example True
                       page_nearly_full)]
              = pages page_nearly_full @ [currentPageHTML page_nearly_full] @ rest
            \<and> rest \<noteq> [] \<and> prefix (outerHTML heading_example) (hd rest))
   \<and> (\<exists>rest. pages (processBlock_notes layout_example heading_example True page_nearly_full)
                  @ [currentPageHTML (processBlock_notes layout_example heading_example True
                       page_nearly_full)]
              = pages page_nearly_full @ [currentPageHTML page_nearly_full] @ rest
            \<and> rest \<noteq> [] \<and> prefix (outerHTML heading_example) (hd rest))"
proof -
  have a: "isHeading heading_example"
    by (simp add: isHeading_def heading_example_def)
  have b: "int maxHeightPerPage - int (currentHeight page_nearly_full) < int headingThreshold"
    by (simp add: maxHeightPerPage_def headingThreshold_def page_nearly_full_def)
  have c: "currentPageHTML page_nearly_full \<noteq> []"
    by (simp add: page_nearly_full_def)
  from heading_starts_new_page[OF a b c, of layout_example True] a b c
  show ?thesis by blast
qed

section \<open>Lists and tables split by item\<close>

lemma itemLoop_fresh_page:
  "currentPageHTML s = [] \<Longrightarrow>
     itemLoop L opn cls items (s, cl, lh) = (s, cl @ itemsHTML items, lh + itemsHeight L items)"
  by (induction items arbitrary: cl lh) (simp_all add: Let_def itemsHTML_def itemsHeight_def)

lemma itemLoop_cases:
  "itemLoop L opn cls items (s, cl, lh) = (s, cl @ itemsHTML items, lh + itemsHeight L items)
   \<or> (\<exists>xs y ys. items = xs @ y # ys \<and> currentPageHTML s \<noteq> []
         \<and> itemLoop L opn cls items (s, cl, lh) =
             (flush (if cl @ itemsHTML xs \<noteq> opn
                     then s\<lparr>currentPageHTML := currentPageHTML s @ cl @ itemsHTML xs @ cls\<rparr>
                     else s),
              opn @ itemsHTML (y # ys), itemsHeight L (y # ys)))"
proof (induction items arbitrary: cl lh)
  case Nil
  then show ?case by (simp add: itemsHTML_def itemsHeight_def)
next
  case (Cons li lis)
  show ?case
  proof (cases "currentHeight s + lh + offsetHeight L li > maxHeightPerPage \<and> currentPageHTML s \<noteq> []")
    case True
    let ?s1 = "(if cl \<noteq> opn then s\<lparr>currentPageHTML := currentPageHTML s @ cl @ cls\<rparr> else s)"
    have "itemLoop L opn cls (li # lis) (s, cl, lh)
        = itemLoop L opn cls lis (flush ?s1, opn @ outerHTML li, 0 + offsetHeight L li)"
      using True by (simp add: Let_def)
    also have "\<dots> = (flush ?s1, opn @ outerHTML li @ itemsHTML lis, offsetHeight L li + itemsHeight L lis)"
      by (subst itemLoop_fresh_page) (simp_all add: flush_def)
    finally have "itemLoop L opn cls (li # lis) (s, cl, lh) =
         (flush (if cl @ itemsHTML [] \<noteq> opn
                     then s\<lparr>currentPageHTML := currentPageHTML s @ cl @ itemsHTML [] @ cls\<rparr>
                     else s),
              opn @ itemsHTML (li # lis), itemsHeight L (li # lis))"
      by (simp add: itemsHTML_def itemsHeight_def)
    with True have "\<exists>xs y ys. li # lis = xs @ y # ys \<and> currentPageHTML s \<noteq> []
         \<and> itemLoop L opn cls (li # lis) (s, cl, lh) =
             (flush (if cl @ itemsHTML xs \<noteq> opn
                     then s\<lparr>currentPageHTML := currentPageHTML s @ cl @ itemsHTML xs @ cls\<rparr>
                     else s),
              opn @ itemsHTML (y # ys), itemsHeight L (y # ys))"
      by (intro exI[of _ "[]"] exI[of _ li] exI[of _ lis]) simp
    then show ?thesis by blast
  next
    case False
    then have step: "itemLoop L opn cls (li # lis) (s, cl, lh)
        = itemLoop L opn cls lis (s, cl @ outerHTML li, lh + offsetHeight L li)"
      by (auto simp: Let_def)
    from Cons.IH[of "cl @ outerHTML li" "lh + offsetHeight L li"]
    show ?thesis
    proof
      assume "itemLoop L opn cls lis (s, cl @ outerHTML li, lh + offsetHeight L li) =
        (s, (cl @ outerHTML li) @ itemsHTML lis, lh + offsetHeight L li + itemsHeight L lis)"
      then show ?thesis using step by (simp add: itemsHTML_def itemsHeight_def)
    next
      assume "\<exists>xs y ys. lis = xs @ y # ys \<and> currentPageHTML s \<noteq> [] \<and>
       itemLoop L opn cls lis (s, cl @ outerHTML li, lh + offsetHeight L li) =
       (flush (if (cl @ outerHTML li) @ itemsHTML xs \<noteq> opn
          then s\<lparr>currentPageHTML := currentPageHTML s @ (cl @ outerHTML li) @ itemsHTML xs @ cls\<rparr>
          else s),
        opn @ itemsHTML (y # ys), itemsHeight L (y # ys))"
      then obtain xs y ys where *: "lis = xs @ y # ys" "currentPageHTML s \<noteq> []"
        "itemLoop L opn cls lis (s, cl @ outerHTML li, lh + offsetHeight L li) =
       (flush (if (cl @ outerHTML li) @ itemsHTML xs \<noteq> opn
          then s\<lparr>currentPageHTML := currentPageHTML s @ (cl @ outerHTML li) @ itemsHTML xs @ cls\<rparr>
          else s),
        opn @ itemsHTML (y # ys), itemsHeight L (y # ys))" by blast
      have "li # lis = (li # xs) @ y # ys \<and> currentPageHTML s \<noteq> []
         \<and> itemLoop L opn cls (li # lis) (s, cl, lh) =
             (flush (if cl @ itemsHTML (li # xs) \<noteq> opn
                     then s\<lparr>currentPageHTML := currentPageHTML s @ cl @ itemsHTML (li # xs) @ cls\<rparr>
                     else s),
              opn @ itemsHTML (y # ys), itemsHeight L (y # ys))"
        using * step by (simp add: itemsHTML_def)
      then show ?thesis by blast
    qed
  qed
qed


lemma itemsHTML_Nil_iff:
  "\<forall>i\<in>set items. outerHTML i \<noteq> [] \<Longrightarrow> (itemsHTML items = []) = (items = [])"
  by (cases items) (auto simp: itemsHTML_def)

lemma splitItems_cases:
  assumes "\<forall>i\<in>set items. outerHTML i \<noteq> []"
  shows "(items = [] \<and> splitItems L opn cls items s = s)
    \<or> (items \<noteq> [] \<and> splitItems L opn cls items s =
          s\<lparr>currentPageHTML := currentPageHTML s @ spec_fragment opn cls items,
            currentHeight := currentHeight s + itemsHeight L items\<rparr>)
    \<or> (items \<noteq> [] \<and> currentPageHTML s \<noteq> [] \<and> splitItems L opn cls items s =
          \<lparr>pages = pages s @ [currentPageHTML s], currentPageHTML = spec_fragment opn cls items,
           currentHeight = itemsHeight L items\<rparr>)
    \<or> (\<exists>xs ys. items = xs @ ys \<and> xs \<noteq> [] \<and> ys \<noteq> [] \<and> currentPageHTML s \<noteq> []
          \<and> splitItems L opn cls items s =
          \<lparr>pages = pages s @ [currentPageHTML s @ spec_fragment opn cls xs],
           currentPageHTML = spec_fragment opn cls ys, currentHeight = itemsHeight L ys\<rparr>)"
proof -
  from itemLoop_cases[of L opn cls items s opn 0]
  show ?thesis
  proof
    assume a: "itemLoop L opn cls items (s, opn, 0) = (s, opn @ itemsHTML items, 0 + itemsHeight L items)"
    show ?thesis
    proof (cases "items = []")
      case True
      with a show ?thesis by (simp add: splitItems_def itemsHTML_def)
    next
      case False
      then have "itemsHTML items \<noteq> []" using assms itemsHTML_Nil_iff by blast
      with a False show ?thesis
        by (simp add: splitItems_def spec_fragment_def itemsHTML_def)
    qed
  next
    assume "\<exists>xs y ys. items = xs @ y # ys \<and> currentPageHTML s \<noteq> []
         \<and> itemLoop L opn cls items (s, opn, 0) =
             (flush (if opn @ itemsHTML xs \<noteq> opn
                     then s\<lparr>currentPageHTML := currentPageHTML s @ opn @ itemsHTML xs @ cls\<rparr>
                     else s),
              opn @ itemsHTML (y # ys), itemsHeight L (y # ys))"
    then obtain xs y ys where *: "items = xs @ y # ys" "currentPageHTML s \<noteq> []"
      "itemLoop L opn cls items (s, opn, 0) =
             (flush (if opn @ itemsHTML xs \<noteq> opn
                     then s\<lparr>currentPageHTML := currentPageHTML s @ opn @ itemsHTML xs @ cls\<rparr>
                     else s),
              opn @ itemsHTML (y # ys), itemsHeight L (y # ys))" by blast
    have ne: "itemsHTML (y # ys) \<noteq> []" "(itemsHTML xs = []) = (xs = [])"
      using assms * itemsHTML_Nil_iff[of "y # ys"] itemsHTML_Nil_iff[of xs] by auto
    show ?thesis
    proof (cases "xs = []")
      case True
      with * ne have "items \<noteq> [] \<and> currentPageHTML s \<noteq> [] \<and> splitItems L opn cls items s =
          \<lparr>pages = pages s @ [currentPageHTML s], currentPageHTML = spec_fragment opn cls items,
           currentHeight = itemsHeight L items\<rparr>"
        by (simp add: splitItems_def flush_def spec_fragment_def itemsHTML_def)
      then show ?thesis by blast
    next
      case False
      with * ne have "items = xs @ (y # ys) \<and> xs \<noteq> [] \<and> y # ys \<noteq> [] \<and> currentPageHTML s \<noteq> []
          \<and> splitItems L opn cls items s =
          \<lparr>pages = pages s @ [currentPageHTML s @ spec_fragment opn cls xs],
           currentPageHTML = spec_fragment opn cls (y # ys), currentHeight = itemsHeight L (y # ys)\<rparr>"
        by (simp add: splitItems_def flush_def spec_fragment_def itemsHTML_def)
      then show ?thesis by blast
    qed
  qed
qed

lemma processBlock_notes_list:
  "tagName e = ''UL'' \<Longrightarrow> processBlock_notes L e notLast s
      = addSpacing notLast (splitItems L ''<ul>'' ''</ul>'' (children e) s)"
  "tagName e = ''OL'' \<Longrightarrow> processBlock_notes L e notLast s
      = addSpacing notLast (splitItems L ''<ol>'' ''</ol>'' (children e) s)"
  "tagName e = ''TABLE'' \<Longrightarrow> processBlock_notes L e notLast s
      = addSpacing notLast (splitItems L ''<table>'' ''</table>'' (querySelectorAll_tr e) s)"
  by (simp_all add: processBlock_notes_def headingBreak_def isHeading_def listType_def Let_def)

text \<open>
  C3. Whatever the items of a list or the rows of a table are (their markup is never the
  empty string), the notes paginator writes them as fragments, each of which is the open
  tag, some of the items in order and the matching close tag; the fragments together hold
  all the items exactly once and in order; and a page is pushed only before the first
  fragment or right after a close tag, never inside a fragment. The open and close tags are
  \<open><ul>\<close>/\<open></ul>\<close>, \<open><ol>\<close>/\<open></ol>\<close> and \<open><table>\<close>/\<open></table>\<close>.
\<close>

theorem list_and_table_fragments_are_closed:
  assumes "\<forall>i\<in>set items. outerHTML i \<noteq> []"
  shows "(\<exists>groups. concat groups = items \<and> [] \<notin> set groups
           \<and> (let s' = splitItems L opening closing items s;
                   frs = map (spec_fragment opening closing) groups
               in (pages s', currentPageHTML s') = spec_emit frs (pages s, currentPageHTML s)
                  \<or> (currentPageHTML s \<noteq> []
                      \<and> (pages s', currentPageHTML s')
                          = spec_emit frs (pages s @ [currentPageHTML s], []))))
       \<and> (tagName e = ''UL'' \<longrightarrow> processBlock_notes L e notLast s
             = addSpacing notLast (splitItems L ''<ul>'' ''</ul>'' (children e) s))
       \<and> (tagName e = ''OL'' \<longrightarrow> processBlock_notes L e notLast s
             = addSpacing notLast (splitItems L ''<ol>'' ''</ol>'' (children e) s))
       \<and> (tagName e = ''TABLE'' \<longrightarrow> processBlock_notes L e notLast s
             = addSpacing notLast (splitItems L ''<table>'' ''</table>'' (querySelectorAll_tr e) s))"
proof -
  let ?P = "\<lambda>groups. concat groups = items \<and> [] \<notin> set groups
           \<and> (let s' = splitItems L opening closing items s;
                   frs = map (spec_fragment opening closing) groups
               in (pages s', currentPageHTML s') = spec_emit frs (pages s, currentPageHTML s)
                  \<or> (currentPageHTML s \<noteq> []
                      \<and> (pages s', currentPageHTML s')
                          = spec_emit frs (pages s @ [currentPageHTML s], [])))"
  from splitItems_cases[OF assms, where L=L and opn="opening" and cls="closing" and s=s]
  consider (none) "items = []" "splitItems L opening closing items s = s"
    | (same) "items \<noteq> []" "splitItems L opening closing items s =
          s\<lparr>currentPageHTML := currentPageHTML s @ spec_fragment opening closing items,
            currentHeight := currentHeight s + itemsHeight L items\<rparr>"
    | (fresh) "items \<noteq> []" "currentPageHTML s \<noteq> []" "splitItems L opening closing items s =
          \<lparr>pages = pages s @ [currentPageHTML s],
           currentPageHTML = spec_fragment opening closing items,
           currentHeight = itemsHeight L items\<rparr>"
    | (two) xs ys where "items = xs @ ys" "xs \<noteq> []" "ys \<noteq> []" "currentPageHTML s \<noteq> []"
          "splitItems L opening closing items s =
          \<lparr>pages = pages s @ [currentPageHTML s @ spec_fragment opening closing xs],
           currentPageHTML = spec_fragment opening closing ys, currentHeight = itemsHeight L ys\<rparr>"
    by blast
  then have "\<exists>groups. ?P groups"
  proof cases
    case none
    then have "?P []" by simp
    then show ?thesis ..
  next
    case same
    then have "?P [items]" by simp
    then show ?thesis ..
  next
    case fresh
    then have "?P [items]" by simp
    then show ?thesis ..
  next
    case two
    then have "?P [xs, ys]" by simp
    then show ?thesis ..
  qed
  then show ?thesis
    using processBlock_notes_list[of e L notLast s] by blast
qed

theorem list_and_table_fragments_are_closed_witness:
  "[] \<notin> set (map outerHTML three_items)
   \<and> splitItems layout_example ''<ul>'' ''</ul>'' three_items page_nearly_full
       = \<lparr>pages = [''<div>intro</div><ul><li>a</li></ul>''],
          currentPageHTML = ''<ul><li>b</li><li>c</li></ul>'', currentHeight = 120\<rparr>
   \<and> (\<exists>groups. concat groups = three_items \<and> [] \<notin> set groups
         \<and> (let s' = splitItems layout_example ''<ul>'' ''</ul>'' three_items page_nearly_full;
                 frs = map (spec_fragment ''<ul>'' ''</ul>'') groups
             in (pages s', currentPageHTML s')
                  = spec_emit frs (pages page_nearly_full, currentPageHTML page_nearly_full)
                \<or> (currentPageHTML page_nearly_full \<noteq> []
                    \<and> (pages s', currentPageHTML s')
                        = spec_emit frs
                            (pages page_nearly_full @ [currentPageHTML page_nearly_full], []))))"
proof -
  have a: "\<forall>i\<in>set three_items. outerHTML i \<noteq> []"
    by (simp add: three_items_def li_example_def)
  have b: "splitItems layout_example ''<ul>'' ''</ul>'' three_items page_nearly_full
       = \<lparr>pages = [''<div>intro</div><ul><li>a</li></ul>''],
          currentPageHTML = ''<ul><li>b</li><li>c</li></ul>'', currentHeight = 120\<rparr>"
    by (simp add: splitItems_def three_items_def li_example_def layout_example_def
        page_nearly_full_def maxHeightPerPage_def flush_def Let_def)
  from list_and_table_fragments_are_closed[OF a, of layout_example "''<ul>''" "''</ul>''"
      page_nearly_full] a b
  show ?thesis by auto
qed

section \<open>The page budget\<close>

text \<open>
  In the question-and-answer and generic views the budget rule holds: the pages are
  consecutive runs of the pieces block, spacer, block, ..., and every page either measures
  at most 900px or is a single block taller than 900px.
\<close>

lemma render_Nil_iff: "[] \<notin> fst ` set g \<Longrightarrow> (render g = []) = (g = [])"
  by (cases g) (auto simp: render_def)

lemma fits_Nil: "fits L B []"
  by (simp add: fits_def height_def)

lemma budgeted_flush:
  assumes "budgeted L B s d"
  shows "budgeted L B (flush s) d"
proof -
  from assms obtain gs g where *: "pages s = map render gs" "currentPageHTML s = render g"
    "currentHeight s = height g" "concat gs @ g = d" "\<forall>g'\<in>set gs. fits L B g'" "fits L B g"
    "[] \<notin> fst ` set g"
    unfolding budgeted_def by blast
  have "pages (flush s) = map render (gs @ [g]) \<and> currentPageHTML (flush s) = render []
        \<and> currentHeight (flush s) = height [] \<and> concat (gs @ [g]) @ [] = d
        \<and> (\<forall>g'\<in>set (gs @ [g]). fits L B g') \<and> fits L B [] \<and> [] \<notin> fst ` set ([]::piece list)"
    using * by (simp add: flush_def render_def height_def fits_Nil)
  then show ?thesis unfolding budgeted_def by blast
qed

lemma budgeted_add:
  assumes "budgeted L B s d" and "html \<noteq> []"
    and "currentHeight s + h \<le> maxHeightPerPage \<or> currentPageHTML s = []"
    and "h \<le> maxHeightPerPage \<or> (\<exists>b\<in>set B. (html, h) = blockPiece L b \<and> offsetHeight L b > maxHeightPerPage)"
  shows "budgeted L B (s\<lparr>currentPageHTML := currentPageHTML s @ html,
                          currentHeight := currentHeight s + h\<rparr>) (d @ [(html, h)])"
proof -
  from assms(1) obtain gs g where *: "pages s = map render gs" "currentPageHTML s = render g"
    "currentHeight s = height g" "concat gs @ g = d" "\<forall>g'\<in>set gs. fits L B g'" "fits L B g"
    "[] \<notin> fst ` set g"
    unfolding budgeted_def by blast
  have f: "fits L B (g @ [(html, h)])"
  proof (cases "currentPageHTML s = []")
    case True
    then have "g = []" using * render_Nil_iff by metis
    then show ?thesis using assms(4) by (auto simp: fits_def height_def)
  next
    case False
    with assms(3) have "height g + h \<le> maxHeightPerPage" using *(3) by simp
    then show ?thesis by (simp add: fits_def height_def)
  qed
  let ?s = "s\<lparr>currentPageHTML := currentPageHTML s @ html, currentHeight := currentHeight s + h\<rparr>"
  have "pages ?s = map render gs \<and> currentPageHTML ?s = render (g @ [(html, h)])
        \<and> currentHeight ?s = height (g @ [(html, h)]) \<and> concat gs @ (g @ [(html, h)]) = d @ [(html, h)]
        \<and> (\<forall>g'\<in>set gs. fits L B g') \<and> fits L B (g @ [(html, h)])
        \<and> [] \<notin> fst ` set (g @ [(html, h)])"
    using * f assms(2) by (auto simp: render_def height_def)
  then show ?thesis unfolding budgeted_def by blast
qed

lemma budgeted_place:
  assumes "budgeted L B s d" and "html \<noteq> []"
    and "h \<le> maxHeightPerPage \<or> (\<exists>b\<in>set B. (html, h) = blockPiece L b \<and> offsetHeight L b > maxHeightPerPage)"
  shows "budgeted L B (place html h s) (d @ [(html, h)])"
proof (cases "currentHeight s + h > maxHeightPerPage \<and> currentPageHTML s \<noteq> []")
  case True
  have "place html h s = (flush s)\<lparr>currentPageHTML := currentPageHTML (flush s) @ html,
                          currentHeight := currentHeight (flush s) + h\<rparr>"
    using True by (simp add: place_def Let_def)
  moreover have "budgeted L B ((flush s)\<lparr>currentPageHTML := currentPageHTML (flush s) @ html,
                          currentHeight := currentHeight (flush s) + h\<rparr>) (d @ [(html, h)])"
    by (rule budgeted_add[OF budgeted_flush[OF assms(1)] assms(2) _ assms(3)])
       (simp add: flush_def)
  ultimately show ?thesis by simp
next
  case False
  have "place html h s = s\<lparr>currentPageHTML := currentPageHTML s @ html,
                          currentHeight := currentHeight s + h\<rparr>"
    using False by (auto simp: place_def Let_def)
  moreover have "budgeted L B (s\<lparr>currentPageHTML := currentPageHTML s @ html,
                          currentHeight := currentHeight s + h\<rparr>) (d @ [(html, h)])"
    using False by (intro budgeted_add[OF assms(1) assms(2) _ assms(3)]) auto
  ultimately show ?thesis by simp
qed

lemma budgeted_headingBreak: "budgeted L B s d \<Longrightarrow> budgeted L B (headingBreak e s) d"
  by (simp add: headingBreak_def Let_def budgeted_flush)

lemma budgeted_processBlock_qa:
  assumes "budgeted L B s d" and "e \<in> set B" and "outerHTML e \<noteq> []"
  shows "budgeted L B (processBlock_qa L e nl s)
           (d @ [blockPiece L e] @ (if nl then [spacerPiece] else []))"
proof -
  have 1: "budgeted L B (place (outerHTML e) (offsetHeight L e) (headingBreak e s))
             (d @ [(outerHTML e, offsetHeight L e)])"
    using assms(2) by (intro budgeted_place budgeted_headingBreak assms(1,3))
      (auto simp: blockPiece_def)
  show ?thesis
  proof (cases nl)
    case True
    have "budgeted L B (place spacerHTML spacing (place (outerHTML e) (offsetHeight L e) (headingBreak e s)))
             ((d @ [(outerHTML e, offsetHeight L e)]) @ [(spacerHTML, spacing)])"
      by (intro budgeted_place 1) (simp_all add: spacerHTML_def spacing_def maxHeightPerPage_def)
    then show ?thesis using True
      by (simp add: processBlock_qa_def addSpacing_def blockPiece_def spacerPiece_def)
  next
    case False
    then show ?thesis using 1
      by (simp add: processBlock_qa_def addSpacing_def blockPiece_def)
  qed
qed

lemma budgeted_loop_qa:
  assumes "budgeted L B s d" and "set es \<subseteq> set B" and "\<forall>b\<in>set es. outerHTML b \<noteq> []"
  shows "budgeted L B (loop_qa L es s) (d @ joined spacerPiece (map (blockPiece L) es))"
  using assms
proof (induction es arbitrary: s d)
  case Nil
  then show ?case by simp
next
  case (Cons e es)
  have "budgeted L B (processBlock_qa L e (es \<noteq> []) s)
           (d @ [blockPiece L e] @ (if es \<noteq> [] then [spacerPiece] else []))"
    using Cons.prems by (intro budgeted_processBlock_qa) simp_all
  from Cons.IH[OF this] Cons.prems(2,3) show ?case
    by (cases es) simp_all
qed

lemma loop_qa_open_page:
  "es \<noteq> [] \<Longrightarrow> outerHTML (last es) \<noteq> [] \<Longrightarrow> currentPageHTML (loop_qa L es s) \<noteq> []"
proof (induction es arbitrary: s)
  case Nil
  then show ?case by simp
next
  case (Cons e es)
  show ?case
  proof (cases "es = []")
    case True
    with Cons.prems show ?thesis
      by (simp add: processBlock_qa_def addSpacing_def place_def Let_def)
  next
    case False
    with Cons show ?thesis by simp
  qed
qed

lemma qa_pages_within_budget:
  assumes "blocks \<noteq> []" and "\<forall>b\<in>set blocks. outerHTML b \<noteq> []"
  shows "\<exists>gs. splitContentIntoPages_qa L blocks = map render gs
           \<and> splitContentIntoPages_generic L blocks = map render gs
           \<and> concat gs = joined spacerPiece (map (blockPiece L) blocks)
           \<and> (\<forall>g\<in>set gs. fits L blocks g)"
proof -
  have "budgeted L blocks initial []"
    unfolding budgeted_def
    by (intro exI[of _ "[]"]) (simp add: initial_def render_def height_def fits_Nil)
  from budgeted_loop_qa[OF this subset_refl assms(2)]
  obtain gs g where *: "pages (loop_qa L blocks initial) = map render gs"
    "currentPageHTML (loop_qa L blocks initial) = render g"
    "concat gs @ g = joined spacerPiece (map (blockPiece L) blocks)"
    "\<forall>g'\<in>set gs. fits L blocks g'" "fits L blocks g"
    unfolding budgeted_def by auto
  have ne: "currentPageHTML (loop_qa L blocks initial) \<noteq> []"
    using assms by (intro loop_qa_open_page) simp_all
  then have "\<And>ph. finish ph (loop_qa L blocks initial) = map render (gs @ [g])"
    using * by (simp add: finish_def)
  moreover have "concat (gs @ [g]) = joined spacerPiece (map (blockPiece L) blocks)"
    using * by simp
  moreover have "\<forall>g'\<in>set (gs @ [g]). fits L blocks g'" using * by simp
  ultimately show ?thesis
    unfolding splitContentIntoPages_qa_def splitContentIntoPages_generic_def by blast
qed

text \<open>
  C1 at scenario C of the specification, in the notes view: the only block is an unordered
  list of twenty items of 60px. The list is written to one page whose counted height is
  1200px, over the budget of 900px, although a list is not an atomic block: the list loop
  pushes a page only when \<open>currentPageHTML\<close> is not empty, and on a fresh page the items
  gathered so far are in \<open>currentListHTML\<close>.
\<close>

theorem long_list_on_fresh_page_is_not_split:
  "splitContentIntoPages_notes layout_example [section_of_twenty]
     = [''<ul>'' @ concat (replicate 20 ''<li>x</li>'') @ ''</ul>'']
   \<and> currentHeight (loop_notes layout_example (flatBlocks [section_of_twenty]) initial) = 1200
   \<and> maxHeightPerPage = 900"
  by (simp add: splitContentIntoPages_notes_def flatBlocks_def section_of_twenty_def
      list_of_twenty_def paginate_notes_def processBlock_notes_list splitItems_def
      itemLoop_fresh_page initial_def addSpacing_def finish_def itemsHTML_def itemsHeight_def
      layout_example_def li_example_def sum_list_replicate map_replicate_const
      maxHeightPerPage_def)

section \<open>The pages hold the blocks, in order\<close>

lemma tiles_init: "tiles [] [] []"
  by (simp add: tiles_def)

lemma tiles_break: "tiles ps cur d \<Longrightarrow> tiles (ps @ [cur]) [] d"
proof -
  assume "tiles ps cur d"
  then obtain gs g where "ps = map concat gs" "cur = concat g" "concat gs @ g = d"
    unfolding tiles_def by blast
  then have "ps @ [cur] = map concat (gs @ [g]) \<and> [] = concat ([]::string list)
      \<and> concat (gs @ [g]) @ [] = d" by simp
  then show ?thesis unfolding tiles_def by blast
qed

lemma tiles_append: "tiles ps cur d \<Longrightarrow> tiles ps (cur @ h) (d @ [h])"
proof -
  assume "tiles ps cur d"
  then obtain gs g where "ps = map concat gs" "cur = concat g" "concat gs @ g = d"
    unfolding tiles_def by blast
  then have "ps = map concat gs \<and> cur @ h = concat (g @ [h]) \<and> concat gs @ (g @ [h]) = d @ [h]"
    by simp
  then show ?thesis unfolding tiles_def by blast
qed

lemma tiles_flush:
  "tiles (pages s) (currentPageHTML s) d \<Longrightarrow> tiles (pages (flush s)) (currentPageHTML (flush s)) d"
  by (simp add: flush_def tiles_break)

lemma tiles_place:
  "tiles (pages s) (currentPageHTML s) d \<Longrightarrow>
     tiles (pages (place h n s)) (currentPageHTML (place h n s)) (d @ [h])"
  using tiles_append[of "pages s" "currentPageHTML s" d h]
    tiles_append[OF tiles_break, of "pages s" "currentPageHTML s" d h]
  by (simp add: place_def Let_def flush_def)

lemma tiles_headingBreak:
  "tiles (pages s) (currentPageHTML s) d \<Longrightarrow>
     tiles (pages (headingBreak e s)) (currentPageHTML (headingBreak e s)) d"
  by (simp add: headingBreak_def Let_def tiles_flush)

lemma tiles_addSpacing:
  "tiles (pages s) (currentPageHTML s) d \<Longrightarrow>
     tiles (pages (addSpacing b s)) (currentPageHTML (addSpacing b s))
       (d @ (if b then [spacerHTML] else []))"
  by (simp add: addSpacing_def tiles_place)

lemma tiles_placeParts:
  "tiles (pages s) (currentPageHTML s) d \<Longrightarrow>
     tiles (pages (placeParts L e ps s)) (currentPageHTML (placeParts L e ps s))
       (d @ map (\<lambda>p. outerHTML (partClone L e p)) ps)"
proof (induction ps arbitrary: s d)
  case Nil
  then show ?case by simp
next
  case (Cons p ps)
  from Cons.IH[OF tiles_place[OF Cons.prems, of "outerHTML (partClone L e p)"
        "offsetHeight L (partClone L e p)"]]
  show ?case by (simp add: Let_def)
qed


lemma tiles_splitItems:
  assumes "\<forall>i\<in>set items. outerHTML i \<noteq> []"
    and "tiles (pages s) (currentPageHTML s) d"
  shows "\<exists>gs. concat gs = items \<and> [] \<notin> set gs
           \<and> tiles (pages (splitItems L opn cls items s))
                (currentPageHTML (splitItems L opn cls items s))
                (d @ map (spec_fragment opn cls) gs)"
proof -
  let ?T = "\<lambda>gs. concat gs = items \<and> [] \<notin> set gs
           \<and> tiles (pages (splitItems L opn cls items s))
                (currentPageHTML (splitItems L opn cls items s))
                (d @ map (spec_fragment opn cls) gs)"
  from splitItems_cases[OF assms(1), where L=L and opn=opn and cls=cls and s=s]
  consider (none) "items = []" "splitItems L opn cls items s = s"
    | (same) "items \<noteq> []" "splitItems L opn cls items s =
          s\<lparr>currentPageHTML := currentPageHTML s @ spec_fragment opn cls items,
            currentHeight := currentHeight s + itemsHeight L items\<rparr>"
    | (fresh) "items \<noteq> []" "currentPageHTML s \<noteq> []" "splitItems L opn cls items s =
          \<lparr>pages = pages s @ [currentPageHTML s], currentPageHTML = spec_fragment opn cls items,
           currentHeight = itemsHeight L items\<rparr>"
    | (two) xs ys where "items = xs @ ys" "xs \<noteq> []" "ys \<noteq> []" "currentPageHTML s \<noteq> []"
          "splitItems L opn cls items s =
          \<lparr>pages = pages s @ [currentPageHTML s @ spec_fragment opn cls xs],
           currentPageHTML = spec_fragment opn cls ys, currentHeight = itemsHeight L ys\<rparr>"
    by blast
  then show ?thesis
  proof cases
    case none
    with assms(2) have "?T []" by simp
    then show ?thesis ..
  next
    case same
    with tiles_append[OF assms(2), of "spec_fragment opn cls items"]
    have "?T [items]" by simp
    then show ?thesis ..
  next
    case fresh
    with tiles_append[OF tiles_break[OF assms(2)], of "spec_fragment opn cls items"]
    have "?T [items]" by simp
    then show ?thesis ..
  next
    case two
    from tiles_append[OF tiles_break[OF tiles_append[OF assms(2), of "spec_fragment opn cls xs"]],
        of "spec_fragment opn cls ys"] two
    have "?T [xs, ys]" by simp
    then show ?thesis ..
  qed
qed

lemma trim_space: "trim (CHR 0x20 # x) = trim x"
  by (simp add: trim_def isSpace_def)

lemma spaced_Nil_iff: "(spaced g = []) = (g = [])"
  by (cases g) (simp_all add: spaced_def)

lemma spaced_single_space: "spaced g = '' '' \<Longrightarrow> g = [[]]"
  by (cases g) (simp_all add: spaced_def spaced_Nil_iff[unfolded spaced_def])

lemma spaced_snoc: "spaced (g @ [w]) = spaced g @ '' '' @ w"
  by (simp add: spaced_def)

lemma wordLoop_groups:
  assumes "spaced g = cp \<or> spaced g = '' '' @ cp"
  shows "\<exists>pgs' g' cp'. wordLoop L e ws (map (\<lambda>g. trim (spaced g)) pgs, cp)
              = (map (\<lambda>g. trim (spaced g)) pgs', cp')
           \<and> (spaced g' = cp' \<or> spaced g' = '' '' @ cp')
           \<and> concat pgs' @ g' = concat pgs @ g @ ws"
  using assms
proof (induction ws arbitrary: pgs g cp)
  case Nil
  then show ?case by auto
next
  case (Cons w ws)
  show ?case
  proof (cases "textHeight L e (cp @ '' '' @ w) > maxHeightPerPage")
    case True
    have tr: "trim cp = trim (spaced g)"
      using Cons.prems trim_space[of cp] by auto
    have step: "wordLoop L e (w # ws) (map (\<lambda>g. trim (spaced g)) pgs, cp)
        = wordLoop L e ws (map (\<lambda>g. trim (spaced g)) (pgs @ [g]), w)"
      using True by (simp add: Let_def tr)
    have "spaced [w] = w \<or> spaced [w] = '' '' @ w" by (simp add: spaced_def)
    from Cons.IH[OF this, of "pgs @ [g]"] show ?thesis
      unfolding step by simp
  next
    case False
    have step: "wordLoop L e (w # ws) (map (\<lambda>g. trim (spaced g)) pgs, cp)
        = wordLoop L e ws (map (\<lambda>g. trim (spaced g)) pgs, cp @ '' '' @ w)"
      using False by (simp add: Let_def)
    have "spaced (g @ [w]) = cp @ '' '' @ w \<or> spaced (g @ [w]) = '' '' @ cp @ '' '' @ w"
      using Cons.prems by (auto simp: spaced_snoc)
    from Cons.IH[OF this, of pgs] show ?thesis
      unfolding step by simp
  qed
qed

lemma splitParts_groups:
  "\<exists>wgs. (concat wgs = textWords e \<or> concat wgs @ [[]] = textWords e)
         \<and> splitParts L e = map (\<lambda>g. trim (spaced g)) wgs"
proof -
  have "spaced [] = [] \<or> spaced [] = '' '' @ []" by (simp add: spaced_def)
  from wordLoop_groups[OF this, of L e "textWords e" "[]"]
  obtain pgs g cp where w: "wordLoop L e (textWords e) ([], []) = (map (\<lambda>g. trim (spaced g)) pgs, cp)"
    and g: "spaced g = cp \<or> spaced g = '' '' @ cp"
    and c: "concat pgs @ g = textWords e"
    by auto
  show ?thesis
  proof (cases "cp = []")
    case True
    with g have "g = [] \<or> g = [[]]"
      using spaced_Nil_iff[of g] spaced_single_space[of g] by auto
    with c have "concat pgs = textWords e \<or> concat pgs @ [[]] = textWords e" by auto
    moreover have "splitParts L e = map (\<lambda>g. trim (spaced g)) pgs"
      using True by (simp add: splitParts_def w)
    ultimately show ?thesis by blast
  next
    case False
    have "trim cp = trim (spaced g)" using g trim_space[of cp] by auto
    then have "splitParts L e = map (\<lambda>g. trim (spaced g)) (pgs @ [g])"
      using False by (simp add: splitParts_def w)
    moreover have "concat (pgs @ [g]) = textWords e" using c by simp
    ultimately show ?thesis by blast
  qed
qed

lemma tiles_processBlock_notes:
  assumes "\<forall>i\<in>set (children e) \<union> set (querySelectorAll_tr e). outerHTML i \<noteq> []"
    and "tiles (pages s) (currentPageHTML s) d"
  shows "\<exists>c. rebuilt L e c
           \<and> tiles (pages (processBlock_notes L e nl s))
                (currentPageHTML (processBlock_notes L e nl s))
                (d @ c @ (if nl then [spacerHTML] else []))"
proof -
  let ?s1 = "headingBreak e s"
  have t1: "tiles (pages ?s1) (currentPageHTML ?s1) d"
    using assms(2) by (rule tiles_headingBreak)
  have *: "\<exists>c. rebuilt L e c \<and> (\<exists>s2. processBlock_notes L e nl s = addSpacing nl s2
            \<and> tiles (pages s2) (currentPageHTML s2) (d @ c))"
  proof (cases "offsetHeight L e > maxHeightPerPage \<and> (tagName e = ''P'' \<or> tagName e = ''DIV'')")
    case True
    from splitParts_groups[of e L] obtain wgs where
      wgs: "concat wgs = textWords e \<or> concat wgs @ [[]] = textWords e"
      "splitParts L e = map (\<lambda>g. trim (spaced g)) wgs" by blast
    let ?c = "map (\<lambda>g. outerHTML (partClone L e (trim (spaced g)))) wgs"
    have "rebuilt L e ?c" using True wgs(1) unfolding rebuilt_def by auto
    moreover have "processBlock_notes L e nl s = addSpacing nl (placeParts L e (splitParts L e) ?s1)"
      using True by (simp add: processBlock_notes_def Let_def)
    moreover have "tiles (pages (placeParts L e (splitParts L e) ?s1))
       (currentPageHTML (placeParts L e (splitParts L e) ?s1)) (d @ ?c)"
      using tiles_placeParts[OF t1, of L e "splitParts L e"] by (simp add: wgs(2) comp_def)
    ultimately show ?thesis by blast
  next
    case notTall: False
    show ?thesis
    proof (cases "tagName e = ''UL'' \<or> tagName e = ''OL''")
      case True
      let ?o = "''<'' @ listType e @ ''>''" and ?c = "''</'' @ listType e @ ''>''"
      have it: "\<forall>i\<in>set (children e). outerHTML i \<noteq> []" using assms(1) by blast
      from tiles_splitItems[OF it t1, of L ?o ?c] obtain gs where
        gs: "concat gs = children e" "[] \<notin> set gs"
        "tiles (pages (splitItems L ?o ?c (children e) ?s1))
           (currentPageHTML (splitItems L ?o ?c (children e) ?s1))
           (d @ map (spec_fragment ?o ?c) gs)" by blast
      have "rebuilt L e (map (spec_fragment ?o ?c) gs)"
        using True notTall gs(1,2) unfolding rebuilt_def by auto
      moreover have "processBlock_notes L e nl s = addSpacing nl (splitItems L ?o ?c (children e) ?s1)"
        using True notTall by (auto simp: processBlock_notes_def Let_def)
      ultimately show ?thesis using gs(3) by blast
    next
      case notList: False
      show ?thesis
      proof (cases "tagName e = ''TABLE''")
        case True
        have it: "\<forall>i\<in>set (querySelectorAll_tr e). outerHTML i \<noteq> []" using assms(1) by blast
        from tiles_splitItems[OF it t1, of L "''<table>''" "''</table>''"] obtain gs where
          gs: "concat gs = querySelectorAll_tr e" "[] \<notin> set gs"
          "tiles (pages (splitItems L ''<table>'' ''</table>'' (querySelectorAll_tr e) ?s1))
             (currentPageHTML (splitItems L ''<table>'' ''</table>'' (querySelectorAll_tr e) ?s1))
             (d @ map (spec_fragment ''<table>'' ''</table>'') gs)" by blast
        have "rebuilt L e (map (spec_fragment ''<table>'' ''</table>'') gs)"
          using True notTall notList gs(1,2) unfolding rebuilt_def by auto
        moreover have "processBlock_notes L e nl s
            = addSpacing nl (splitItems L ''<table>'' ''</table>'' (querySelectorAll_tr e) ?s1)"
          using True notTall by (auto simp: processBlock_notes_def Let_def)
        ultimately show ?thesis using gs(3) by blast
      next
        case False
        have "rebuilt L e [outerHTML e]"
          using False notTall notList unfolding rebuilt_def by auto
        moreover have "processBlock_notes L e nl s
            = addSpacing nl (place (outerHTML e) (offsetHeight L e) ?s1)"
          using False notTall notList by (auto simp: processBlock_notes_def Let_def)
        moreover have "tiles (pages (place (outerHTML e) (offsetHeight L e) ?s1))
            (currentPageHTML (place (outerHTML e) (offsetHeight L e) ?s1)) (d @ [outerHTML e])"
          using t1 by (rule tiles_place)
        ultimately show ?thesis by blast
      qed
    qed
  qed
  then obtain c s2 where c: "rebuilt L e c" "processBlock_notes L e nl s = addSpacing nl s2"
    "tiles (pages s2) (currentPageHTML s2) (d @ c)" by blast
  from tiles_addSpacing[OF c(3), of nl] c(1,2) show ?thesis by auto
qed


lemma concat_joined_Cons:
  "concat (joined sep (c # cs)) = c @ (if cs = [] then [] else sep @ concat (joined sep cs))"
  by (cases cs) simp_all

lemma tiles_loop_notes:
  assumes "\<forall>b\<in>set es. \<forall>i\<in>set (children b) \<union> set (querySelectorAll_tr b). outerHTML i \<noteq> []"
    and "tiles (pages s) (currentPageHTML s) d"
  shows "\<exists>cs. list_all2 (rebuilt L) es cs
           \<and> tiles (pages (loop_notes L es s)) (currentPageHTML (loop_notes L es s))
                (d @ concat (joined [spacerHTML] cs))"
  using assms
proof (induction es arbitrary: s d)
  case Nil
  then show ?case by simp
next
  case (Cons e es)
  have wf: "\<forall>i\<in>set (children e) \<union> set (querySelectorAll_tr e). outerHTML i \<noteq> []"
    using Cons.prems(1) by simp
  from tiles_processBlock_notes[OF wf Cons.prems(2), of L "es \<noteq> []"]
  obtain c where c: "rebuilt L e c"
    "tiles (pages (processBlock_notes L e (es \<noteq> []) s))
       (currentPageHTML (processBlock_notes L e (es \<noteq> []) s))
       (d @ c @ (if es \<noteq> [] then [spacerHTML] else []))" by blast
  have wfs: "\<forall>b\<in>set es. \<forall>i\<in>set (children b) \<union> set (querySelectorAll_tr b). outerHTML i \<noteq> []"
    using Cons.prems(1) by simp
  from Cons.IH[OF wfs c(2)] obtain cs where cs: "list_all2 (rebuilt L) es cs"
    "tiles (pages (loop_notes L (e # es) s)) (currentPageHTML (loop_notes L (e # es) s))
       ((d @ c @ (if es \<noteq> [] then [spacerHTML] else [])) @ concat (joined [spacerHTML] cs))"
    by auto
  have len: "(es = []) = (cs = [])" using cs(1) by (auto dest: list_all2_lengthD)
  have "(d @ c @ (if es \<noteq> [] then [spacerHTML] else [])) @ concat (joined [spacerHTML] cs)
      = d @ concat (joined [spacerHTML] (c # cs))"
    by (cases cs) (simp_all add: len)
  with cs c(1) have "list_all2 (rebuilt L) (e # es) (c # cs)
     \<and> tiles (pages (loop_notes L (e # es) s)) (currentPageHTML (loop_notes L (e # es) s))
       (d @ concat (joined [spacerHTML] (c # cs)))" by simp
  then show ?case by blast
qed

lemma tiles_loop_qa:
  "tiles (pages s) (currentPageHTML s) d \<Longrightarrow>
     tiles (pages (loop_qa L es s)) (currentPageHTML (loop_qa L es s))
       (d @ joined spacerHTML (map outerHTML es))"
proof (induction es arbitrary: s d)
  case Nil
  then show ?case by simp
next
  case (Cons e es)
  have "tiles (pages (processBlock_qa L e (es \<noteq> []) s))
       (currentPageHTML (processBlock_qa L e (es \<noteq> []) s))
       ((d @ [outerHTML e]) @ (if es \<noteq> [] then [spacerHTML] else []))"
    unfolding processBlock_qa_def Let_def
    by (intro tiles_addSpacing tiles_place tiles_headingBreak Cons.prems)
  from Cons.IH[OF this] show ?case
    by (cases es) simp_all
qed

lemma concat_concat_map: "concat (concat gs) = concat (map concat gs)"
  by (induction gs) simp_all

lemma tiles_concat:
  "tiles ps cur d \<Longrightarrow> concat d = concat ps @ cur"
  unfolding tiles_def by (auto simp: concat_concat_map)

lemma finish_tiles:
  assumes "tiles (pages s) (currentPageHTML s) d" and "[] \<notin> set (pages s)"
  shows "(concat d = [] \<longrightarrow> finish ph s = [ph])
       \<and> (concat d \<noteq> [] \<longrightarrow> (\<exists>gs. finish ph s = map concat gs \<and> concat gs = d))"
proof (intro conjI impI)
  assume "concat d = []"
  with tiles_concat[OF assms(1)] have "concat (pages s) = []" "currentPageHTML s = []" by simp_all
  moreover from this(1) assms(2) have "pages s = []" by (cases "pages s") auto
  ultimately show "finish ph s = [ph]" by (simp add: finish_def)
next
  assume ne: "concat d \<noteq> []"
  from assms(1) obtain gs g where t: "pages s = map concat gs" "currentPageHTML s = concat g"
    "concat gs @ g = d" unfolding tiles_def by blast
  show "\<exists>gs. finish ph s = map concat gs \<and> concat gs = d"
  proof (cases "currentPageHTML s = []")
    case False
    then have "finish ph s = map concat (gs @ [g]) \<and> concat (gs @ [g]) = d"
      using t by (simp add: finish_def)
    then show ?thesis by blast
  next
    case True
    with ne tiles_concat[OF assms(1)] have "pages s \<noteq> []" by auto
    with t(1) have gne: "gs \<noteq> []" by auto
    let ?gs = "butlast gs @ [last gs @ g]"
    have "map concat ?gs = map concat (butlast gs) @ [concat (last gs)]"
      using True t(2) by simp
    also have "\<dots> = map concat (butlast gs @ [last gs])" by simp
    also have "\<dots> = pages s" using gne t(1) by simp
    finally have a: "map concat ?gs = pages s" .
    have "concat ?gs = concat (butlast gs @ [last gs]) @ g" by simp
    also have "\<dots> = d" using gne t(3) by simp
    finally have b: "concat ?gs = d" .
    have "finish ph s = pages s" using True \<open>pages s \<noteq> []\<close> by (simp add: finish_def)
    with a b have "finish ph s = map concat ?gs \<and> concat ?gs = d" by simp
    then show ?thesis by blast
  qed
qed

text \<open>
  C2, as the code has it. For blocks with markup (and items and rows with markup):
  in the question-and-answer and generic views the pages are consecutive runs of the
  sequence block, spacer, block, ..., block, so that the pages read in order hold every
  block's markup once, whole and in order, with a spacer between two blocks. In the notes
  view the pages are consecutive runs of the same sequence with every block replaced by
  the pieces written for it (\<open>rebuilt\<close>): the block's markup for a block that is not a
  list, a table or a paragraph taller than a page; fragments that hold the items (rows) in
  order for a list (table); plain-text elements that hold the words of its text in order
  for a \<open>P\<close> or \<open>DIV\<close> taller than a page. When the pieces are all empty the notes view
  returns its placeholder.
\<close>

theorem pages_hold_the_blocks_in_order:
  assumes "blocks \<noteq> []"
    and "\<forall>b\<in>set blocks. outerHTML b \<noteq> []"
    and "\<forall>b\<in>set blocks. \<forall>i\<in>set (children b) \<union> set (querySelectorAll_tr b). outerHTML i \<noteq> []"
  shows "(\<exists>gs. splitContentIntoPages_qa L blocks = map concat gs
            \<and> concat gs = joined spacerHTML (map outerHTML blocks))
       \<and> (\<exists>gs. splitContentIntoPages_generic L blocks = map concat gs
            \<and> concat gs = joined spacerHTML (map outerHTML blocks))
       \<and> (\<exists>cs. list_all2 (rebuilt L) blocks cs
            \<and> (concat (concat (joined [spacerHTML] cs)) = []
                  \<longrightarrow> paginate_notes L blocks = [placeholder_notes])
            \<and> (concat (concat (joined [spacerHTML] cs)) \<noteq> []
                  \<longrightarrow> (\<exists>gs. paginate_notes L blocks = map concat gs
                         \<and> concat gs = concat (joined [spacerHTML] cs))))"
proof -
  have init: "tiles (pages initial) (currentPageHTML initial) []"
    by (simp add: initial_def tiles_init)
  have ne0: "[] \<notin> set (pages initial)" by (simp add: initial_def)
  let ?d = "joined spacerHTML (map outerHTML blocks)"
  have qa: "tiles (pages (loop_qa L blocks initial)) (currentPageHTML (loop_qa L blocks initial)) ?d"
    using tiles_loop_qa[OF init, of L blocks] by simp
  obtain b bs where bl: "blocks = b # bs" using assms(1) by (cases blocks) auto
  have "outerHTML b \<noteq> []" using assms(2) bl by simp
  then have dne: "concat ?d \<noteq> []" unfolding bl by (cases bs) simp_all
  from finish_tiles[OF qa loop_qa_nonempty[OF ne0]] dne
  have 1: "\<And>ph. \<exists>gs. finish ph (loop_qa L blocks initial) = map concat gs \<and> concat gs = ?d"
    by blast
  from tiles_loop_notes[OF assms(3) init, of L] obtain cs where
    cs: "list_all2 (rebuilt L) blocks cs"
    "tiles (pages (loop_notes L blocks initial)) (currentPageHTML (loop_notes L blocks initial))
       (concat (joined [spacerHTML] cs))" by auto
  from finish_tiles[OF cs(2) loop_notes_nonempty[OF ne0], of placeholder_notes] cs(1)
  have 2: "\<exists>cs. list_all2 (rebuilt L) blocks cs
            \<and> (concat (concat (joined [spacerHTML] cs)) = []
                  \<longrightarrow> paginate_notes L blocks = [placeholder_notes])
            \<and> (concat (concat (joined [spacerHTML] cs)) \<noteq> []
                  \<longrightarrow> (\<exists>gs. paginate_notes L blocks = map concat gs
                         \<and> concat gs = concat (joined [spacerHTML] cs)))"
    unfolding paginate_notes_def by blast
  from 1 2 show ?thesis
    unfolding splitContentIntoPages_qa_def splitContentIntoPages_generic_def by blast
qed


theorem pages_hold_the_blocks_in_order_witness:
  "[heading_example, list_of_three] \<noteq> []
   \<and> [] \<notin> set (map outerHTML [heading_example, list_of_three])
   \<and> splitContentIntoPages_qa layout_example [heading_example, list_of_three]
       = [outerHTML heading_example @ spacerHTML @ outerHTML list_of_three]
   \<and> (\<exists>gs. splitContentIntoPages_qa layout_example [heading_example, list_of_three]
                = map concat gs
            \<and> concat gs = joined spacerHTML (map outerHTML [heading_example, list_of_three]))
   \<and> (\<exists>cs. list_all2 (rebuilt layout_example) [heading_example, list_of_three] cs
            \<and> (\<exists>gs. paginate_notes layout_example [heading_example, list_of_three]
                         = map concat gs
                     \<and> concat gs = concat (joined [spacerHTML] cs)))"
proof -
  have a: "[heading_example, list_of_three] \<noteq> []" by simp
  have b: "\<forall>b\<in>set [heading_example, list_of_three]. outerHTML b \<noteq> []"
    by (simp add: heading_example_def list_of_three_def)
  have c: "\<forall>b\<in>set [heading_example, list_of_three].
             \<forall>i\<in>set (children b) \<union> set (querySelectorAll_tr b). outerHTML i \<noteq> []"
    by (simp add: heading_example_def list_of_three_def three_items_def li_example_def)
  have d: "splitContentIntoPages_qa layout_example [heading_example, list_of_three]
       = [outerHTML heading_example @ spacerHTML @ outerHTML list_of_three]"
    by (simp add: splitContentIntoPages_qa_def processBlock_qa_def headingBreak_def
        isHeading_def place_def addSpacing_def finish_def initial_def flush_def Let_def
        layout_example_def heading_example_def list_of_three_def maxHeightPerPage_def
        headingThreshold_def spacing_def spacerHTML_def)
  from pages_hold_the_blocks_in_order[OF a b c, of layout_example]
  obtain cs where cs: "list_all2 (rebuilt layout_example) [heading_example, list_of_three] cs"
    "concat (concat (joined [spacerHTML] cs)) \<noteq> [] \<longrightarrow>
       (\<exists>gs. paginate_notes layout_example [heading_example, list_of_three] = map concat gs
            \<and> concat gs = concat (joined [spacerHTML] cs))"
    and qa: "\<exists>gs. splitContentIntoPages_qa layout_example [heading_example, list_of_three]
                = map concat gs
            \<and> concat gs = joined spacerHTML (map outerHTML [heading_example, list_of_three])"
    by blast
  from cs(1) obtain c1 c2 where c12: "cs = [c1, c2]"
    by (auto simp: list_all2_Cons1)
  have "concat (concat (joined [spacerHTML] cs)) \<noteq> []"
    by (simp add: c12 spacerHTML_def)
  with cs have "\<exists>cs. list_all2 (rebuilt layout_example) [heading_example, list_of_three] cs
            \<and> (\<exists>gs. paginate_notes layout_example [heading_example, list_of_three]
                         = map concat gs
                     \<and> concat gs = concat (joined [spacerHTML] cs))"
    by blast
  with a b d qa show ?thesis by auto
qed

text \<open>
  C2 as stated fails in the notes view: the paragraph with the figure is 1000px tall, so it
  is rebuilt from its text, and the pages hold the word without the figure.
\<close>

theorem tall_paragraph_loses_its_figure:
  "concat (splitContentIntoPages_notes layout_example [section_with_figure]) = ''<p>Intro</p>''
   \<and> concat (map outerHTML (flatBlocks [section_with_figure]))
       = ''<p>Intro<img src='' @ [CHR 0x22] @ ''fig.png'' @ [CHR 0x22]
           @ '' height='' @ [CHR 0x22] @ ''1000'' @ [CHR 0x22] @ ''></p>''"
  by (simp add: splitContentIntoPages_notes_def flatBlocks_def paginate_notes_def
      processBlock_notes_def headingBreak_def isHeading_def splitParts_def trim_def isSpace_def
      place_def addSpacing_def finish_def initial_def Let_def layout_example_def
      section_with_figure_def paragraph_with_figure_def figure_example_def maxHeightPerPage_def)

section \<open>Pagination is a function of the blocks and of what is measured\<close>

lemma processBlock_qa_cong:
  "offsetHeight L1 e = offsetHeight L2 e \<Longrightarrow> processBlock_qa L1 e b s = processBlock_qa L2 e b s"
  by (simp add: processBlock_qa_def)

lemma loop_qa_cong:
  "\<forall>e\<in>set es. offsetHeight L1 e = offsetHeight L2 e \<Longrightarrow> loop_qa L1 es s = loop_qa L2 es s"
proof (induction es arbitrary: s)
  case Nil
  show ?case by simp
next
  case (Cons e es)
  have "processBlock_qa L1 e (es \<noteq> []) s = processBlock_qa L2 e (es \<noteq> []) s"
    using Cons.prems by (intro processBlock_qa_cong) simp
  moreover have "loop_qa L1 es t = loop_qa L2 es t" for t
    using Cons.prems by (intro Cons.IH) simp
  ultimately show ?case by simp
qed

lemma wordLoop_cong:
  assumes "\<forall>t. textHeight L1 e t = textHeight L2 e t"
  shows "wordLoop L1 e ws acc = wordLoop L2 e ws acc"
proof (induction ws arbitrary: acc)
  case Nil
  show ?case by (cases acc) simp
next
  case (Cons w ws)
  obtain ps cp where acc: "acc = (ps, cp)" by (cases acc)
  have "textHeight L1 e (cp @ '' '' @ w) = textHeight L2 e (cp @ '' '' @ w)"
    using assms by blast
  then show ?case unfolding acc by (simp add: Let_def Cons.IH)
qed

lemma splitParts_cong:
  "\<forall>t. textHeight L1 e t = textHeight L2 e t \<Longrightarrow> splitParts L1 e = splitParts L2 e"
  by (simp add: splitParts_def wordLoop_cong[of L1 e L2])

lemma placeParts_cong:
  assumes "\<forall>t. partClone L1 e t = partClone L2 e t
        \<and> offsetHeight L1 (partClone L1 e t) = offsetHeight L2 (partClone L1 e t)"
  shows "placeParts L1 e ps s = placeParts L2 e ps s"
proof (induction ps arbitrary: s)
  case Nil
  show ?case by simp
next
  case (Cons p ps)
  from assms have pc: "partClone L1 e p = partClone L2 e p" by blast
  from assms have "offsetHeight L1 (partClone L1 e p) = offsetHeight L2 (partClone L1 e p)"
    by blast
  then have oh: "offsetHeight L1 (partClone L2 e p) = offsetHeight L2 (partClone L2 e p)"
    by (simp add: pc)
  show ?case by (simp add: Let_def pc oh Cons.IH)
qed

lemma itemLoop_cong:
  "\<forall>i\<in>set items. offsetHeight L1 i = offsetHeight L2 i \<Longrightarrow>
     itemLoop L1 opn cls items acc = itemLoop L2 opn cls items acc"
proof (induction items arbitrary: acc)
  case Nil
  show ?case by simp
next
  case (Cons li lis)
  obtain s c h where acc: "acc = (s, c, h)" by (cases acc)
  have h: "offsetHeight L1 li = offsetHeight L2 li" using Cons.prems by simp
  have ih: "itemLoop L1 opn cls lis a = itemLoop L2 opn cls lis a" for a
    using Cons.prems by (intro Cons.IH) simp
  show ?case unfolding acc by (simp add: Let_def h ih)
qed

lemma splitItems_cong:
  "\<forall>i\<in>set items. offsetHeight L1 i = offsetHeight L2 i \<Longrightarrow>
     splitItems L1 opn cls items s = splitItems L2 opn cls items s"
  by (simp add: splitItems_def itemLoop_cong[of items L1 L2])

lemma processBlock_notes_cong:
  assumes "sameMeasurements L1 L2 e"
  shows "processBlock_notes L1 e b s = processBlock_notes L2 e b s"
proof -
  have h: "offsetHeight L1 e = offsetHeight L2 e"
    using assms by (simp add: sameMeasurements_def)
  have parts: "splitParts L1 e = splitParts L2 e"
    using assms by (intro splitParts_cong) (simp add: sameMeasurements_def)
  have place: "placeParts L1 e ps t = placeParts L2 e ps t" for ps t
    using assms unfolding sameMeasurements_def by (intro placeParts_cong) blast
  have li: "splitItems L1 opn cls (children e) t = splitItems L2 opn cls (children e) t"
    for opn cls t
    using assms by (intro splitItems_cong) (simp add: sameMeasurements_def)
  have tr: "splitItems L1 opn cls (querySelectorAll_tr e) t
              = splitItems L2 opn cls (querySelectorAll_tr e) t" for opn cls t
    using assms by (intro splitItems_cong) (simp add: sameMeasurements_def)
  show ?thesis
    unfolding processBlock_notes_def h parts place li tr ..
qed

lemma loop_notes_cong:
  "\<forall>e\<in>set es. sameMeasurements L1 L2 e \<Longrightarrow> loop_notes L1 es s = loop_notes L2 es s"
proof (induction es arbitrary: s)
  case Nil
  show ?case by simp
next
  case (Cons e es)
  have "processBlock_notes L1 e (es \<noteq> []) s = processBlock_notes L2 e (es \<noteq> []) s"
    using Cons.prems by (intro processBlock_notes_cong) simp
  moreover have "loop_notes L1 es t = loop_notes L2 es t" for t
    using Cons.prems by (intro Cons.IH) simp
  ultimately show ?case by simp
qed

text \<open>
  C8. The page list is determined by the blocks and by the measurements taken: two runs
  on the same blocks give the same pages whenever the two layout engines return the same
  heights for what is measured, the blocks in the question-and-answer and generic views,
  and the blocks, their items, rows and text parts in the notes view. The budget is the
  constant 900 and there is no other input: the paginators read no clock and no state
  outside their three local variables.
\<close>

theorem pages_depend_only_on_measurements:
  "((\<forall>b\<in>set blocks. offsetHeight L1 b = offsetHeight L2 b) \<longrightarrow>
      splitContentIntoPages_qa L1 blocks = splitContentIntoPages_qa L2 blocks
      \<and> splitContentIntoPages_generic L1 blocks = splitContentIntoPages_generic L2 blocks)
   \<and> ((\<forall>b\<in>set (flatBlocks noteSections). sameMeasurements L1 L2 b) \<longrightarrow>
      splitContentIntoPages_notes L1 noteSections = splitContentIntoPages_notes L2 noteSections)"
  by (simp add: splitContentIntoPages_qa_def splitContentIntoPages_generic_def
      splitContentIntoPages_notes_def paginate_notes_def loop_qa_cong[of blocks L1 L2]
      loop_notes_cong[of "flatBlocks noteSections" L1 L2])

theorem pages_depend_only_on_measurements_witness:
  "offsetHeight layout_example \<noteq> offsetHeight layout_other
   \<and> splitContentIntoPages_qa layout_example [heading_example, list_of_three]
       = splitContentIntoPages_qa layout_other [heading_example, list_of_three]
   \<and> splitContentIntoPages_generic layout_example [heading_example, list_of_three]
       = splitContentIntoPages_generic layout_other [heading_example, list_of_three]
   \<and> splitContentIntoPages_notes layout_example [section_example]
       = splitContentIntoPages_notes layout_other [section_example]"
proof -
  have a: "\<forall>b\<in>set [heading_example, list_of_three].
             offsetHeight layout_example b = offsetHeight layout_other b"
    by (simp add: layout_other_def layout_example_def heading_example_def list_of_three_def)
  have f: "flatBlocks [section_example] = [heading_example, list_of_three]"
    by (simp add: flatBlocks_def section_example_def heading_example_def list_of_three_def)
  have b: "\<forall>b\<in>set (flatBlocks [section_example]). sameMeasurements layout_example layout_other b"
    unfolding f
    by (simp add: sameMeasurements_def layout_other_def layout_example_def heading_example_def
        list_of_three_def three_items_def li_example_def)
  have c: "offsetHeight layout_example \<noteq> offsetHeight layout_other"
  proof
    assume "offsetHeight layout_example = offsetHeight layout_other"
    then have "offsetHeight layout_example (Element ''SPAN'' [] [] [] [] True)
        = offsetHeight layout_other (Element ''SPAN'' [] [] [] [] True)" by simp
    then show False by (simp add: layout_other_def layout_example_def)
  qed
  from pages_depend_only_on_measurements[of "[heading_example, list_of_three]" layout_example layout_other "[section_example]"]
    a b c
  show ?thesis by simp
qed


section \<open>The export job: what holds after it\<close>

lemma succeeded_catchFinally: "succeeded (catchFinally (ok, s)) = (ok \<and> succeeded s)"
  by (simp add: succeeded_def catchFinally_def Let_def)

lemma catchFinally_frame:
  "incrementCalls (catchFinally (ok, s)) = incrementCalls s
   \<and> downloaded (catchFinally (ok, s)) = downloaded s"
  by (simp add: catchFinally_def Let_def)

lemma catchFinally_clears:
  "isExporting (catchFinally r) = False
   \<and> container (catchFinally r) = (case container (snd r) of None \<Rightarrow> None | Some h \<Rightarrow> Some [])"
  by (cases r) (simp add: catchFinally_def Let_def)

lemma generate_frame:
  "incrementCalls (snd (generate W J s)) = incrementCalls s
   \<and> sessionStorage (snd (generate W J s)) = sessionStorage s
   \<and> downloaded (snd (generate W J s)) = downloaded s"
  by (simp add: generate_def Let_def)

lemma beginExport_frame:
  "incrementCalls (beginExport s) = incrementCalls s
   \<and> sessionStorage (beginExport s) = sessionStorage s
   \<and> downloaded (beginExport s) = downloaded s"
  by (simp add: beginExport_def)

lemma generate_container:
  "(container (snd (generate W J s)) = None) = (container s = None)"
  by (simp add: generate_def Let_def)

lemma distribute_qa_container: "container (snd (distribute_qa W J s)) = container s"
  by (simp add: distribute_qa_def Let_def startDownload_def callIncrement_def succeed_def submit_def)

lemma distribute_notes_container: "container (snd (distribute_notes W J s)) = container s"
  by (simp add: distribute_notes_def Let_def startDownload_def callIncrement_def succeed_def
      submit_def mark_def)

lemma distribute_generic_container: "container (snd (distribute_generic W J rt s)) = container s"
  by (simp add: distribute_generic_def Let_def startDownload_def callIncrement_def succeed_def
      submit_def bumpStats_def)

lemma cleared_iff:
  "(case c of None \<Rightarrow> None | Some h \<Rightarrow> Some [])
     = (case c' of None \<Rightarrow> None | Some h \<Rightarrow> Some ([]::string))
   \<longleftrightarrow> (c = None) = (c' = None)"
  by (cases c; cases c') simp_all

lemma andThen_container:
  assumes "\<And>s. container (snd (f s)) = container s"
  shows "container (snd (andThen r f)) = container (snd r)"
  using assms by (cases r) (simp add: andThen_def)

text \<open>
  C10. Whatever the awaited operations do and whatever the job is, when
  \<open>handleExportConfirm\<close> has run (in any of the three views) the exporting flag is false
  and the export container, when there is one, holds the empty string.
\<close>

theorem export_always_cleans_up:
  "isExporting (handleExportConfirm_qa W J s) = False
   \<and> container (handleExportConfirm_qa W J s)
       = (case container s of None \<Rightarrow> None | Some h \<Rightarrow> Some [])
   \<and> isExporting (handleExportConfirm_notes W J s) = False
   \<and> container (handleExportConfirm_notes W J s)
       = (case container s of None \<Rightarrow> None | Some h \<Rightarrow> Some [])
   \<and> isExporting (handleExportConfirm_generic W J rt s) = False
   \<and> container (handleExportConfirm_generic W J rt s)
       = (case container s of None \<Rightarrow> None | Some h \<Rightarrow> Some [])"
proof -
  have g: "(container (snd (generate W J (beginExport s))) = None) = (container s = None)"
    by (simp add: generate_container beginExport_def)
  show ?thesis
    unfolding handleExportConfirm_qa_def handleExportConfirm_notes_def
      handleExportConfirm_generic_def
    using g by (simp add: catchFinally_clears cleared_iff andThen_container
        distribute_qa_container distribute_notes_container distribute_generic_container)
qed

subsection \<open>The usage counter\<close>

text \<open>
  With an api module that exports \<open>incrementLessonDownload\<close>, a job that succeeds makes
  the request exactly once in the question-and-answer view and in the generic view; in the
  notes view it makes it once when the session storage does not hold the marker
  \<open>downloaded_<lessonId>_notes\<close> yet, and not at all when it does.
\<close>

lemma distribute_qa_calls:
  "increment W \<noteq> NotExported \<Longrightarrow> fst (distribute_qa W J s) \<Longrightarrow>
     incrementCalls (snd (distribute_qa W J s)) = incrementCalls s @ [(lessonId J, ''qa'')]"
  by (auto simp: distribute_qa_def Let_def startDownload_def callIncrement_def succeed_def
      submit_def split: if_splits)

lemma distribute_generic_calls:
  "increment W \<noteq> NotExported \<Longrightarrow> fst (distribute_generic W J rt s) \<Longrightarrow>
     incrementCalls (snd (distribute_generic W J rt s)) = incrementCalls s @ [(lessonId J, rt)]"
  by (auto simp: distribute_generic_def Let_def startDownload_def callIncrement_def succeed_def
      submit_def bumpStats_def split: if_splits)

lemma distribute_notes_calls:
  "increment W \<noteq> NotExported \<Longrightarrow> fst (distribute_notes W J s) \<Longrightarrow>
     incrementCalls (snd (distribute_notes W J s)) =
       incrementCalls s @ (if marked s (downloadKey (lessonId J)) then []
                           else [(lessonId J, ''notes'')])"
  by (auto simp: distribute_notes_def Let_def startDownload_def callIncrement_def succeed_def
      submit_def mark_def marked_def split: if_splits)

lemma run_calls:
  assumes "succeeded (catchFinally (andThen (generate W J (beginExport s)) f))"
    and "\<And>s1. fst (f s1) \<Longrightarrow>
           incrementCalls (snd (f s1)) = incrementCalls s1 @ new (sessionStorage s1)"
  shows "incrementCalls (catchFinally (andThen (generate W J (beginExport s)) f))
         = incrementCalls s @ new (sessionStorage s)"
proof -
  obtain ok s1 where g: "generate W J (beginExport s) = (ok, s1)"
    by (cases "generate W J (beginExport s)")
  have fr: "incrementCalls s1 = incrementCalls s" "sessionStorage s1 = sessionStorage s"
    using generate_frame[of W J "beginExport s"] beginExport_frame[of s] by (simp_all add: g)
  obtain ok2 s2 where f: "f s1 = (ok2, s2)" by (cases "f s1")
  from assms(1) have ok: ok ok2
    by (auto simp: g f andThen_def succeeded_catchFinally split: if_splits)
  with assms(2)[of s1] have "incrementCalls s2 = incrementCalls s1 @ new (sessionStorage s1)"
    by (simp add: f)
  with ok show ?thesis
    by (simp add: g f andThen_def catchFinally_frame fr)
qed

lemma increment_once_when_exported:
  assumes "increment W \<noteq> NotExported"
  shows "(succeeded (handleExportConfirm_qa W J s) \<longrightarrow>
      incrementCalls (handleExportConfirm_qa W J s) = incrementCalls s @ [(lessonId J, ''qa'')])
   \<and> (succeeded (handleExportConfirm_generic W J rt s) \<longrightarrow>
      incrementCalls (handleExportConfirm_generic W J rt s) = incrementCalls s @ [(lessonId J, rt)])
   \<and> (succeeded (handleExportConfirm_notes W J s) \<longrightarrow>
      incrementCalls (handleExportConfirm_notes W J s) =
        incrementCalls s @ (if marked s (downloadKey (lessonId J)) then []
                            else [(lessonId J, ''notes'')]))"
proof (intro conjI impI)
  assume "succeeded (handleExportConfirm_qa W J s)"
  then show "incrementCalls (handleExportConfirm_qa W J s)
      = incrementCalls s @ [(lessonId J, ''qa'')]"
    unfolding handleExportConfirm_qa_def
    by (rule run_calls[where new = "\<lambda>_. [(lessonId J, ''qa'')]"])
       (rule distribute_qa_calls[OF assms])
next
  assume "succeeded (handleExportConfirm_generic W J rt s)"
  then show "incrementCalls (handleExportConfirm_generic W J rt s)
      = incrementCalls s @ [(lessonId J, rt)]"
    unfolding handleExportConfirm_generic_def
    by (rule run_calls[where new = "\<lambda>_. [(lessonId J, rt)]"])
       (rule distribute_generic_calls[OF assms])
next
  assume "succeeded (handleExportConfirm_notes W J s)"
  then have "incrementCalls (handleExportConfirm_notes W J s) = incrementCalls s @
      (\<lambda>m. if (case m (downloadKey (lessonId J)) of None \<Rightarrow> False | Some v \<Rightarrow> v \<noteq> []) then []
            else [(lessonId J, ''notes'')]) (sessionStorage s)"
    unfolding handleExportConfirm_notes_def
    by (rule run_calls) (simp add: distribute_notes_calls[OF assms] marked_def)
  then show "incrementCalls (handleExportConfirm_notes W J s) =
        incrementCalls s @ (if marked s (downloadKey (lessonId J)) then []
                            else [(lessonId J, ''notes'')])"
    by (simp add: marked_def)
qed

lemma marker_suppresses_later_increments:
  "succeeded (handleExportConfirm_notes world_ok job_admin view_idle)
   \<and> succeeded (handleExportConfirm_notes world_ok job_admin
                  (handleExportConfirm_notes world_ok job_admin view_idle))
   \<and> incrementCalls (handleExportConfirm_notes world_ok job_admin
                  (handleExportConfirm_notes world_ok job_admin view_idle)) = [(''L1'', ''notes'')]"
  by (simp add: export_defs example_defs)

text \<open>
  With the api module of the sources the call throws before any request is made. Then no
  job makes a request; no job of the question-and-answer view or of the generic view
  succeeds, since none of them gets past the call; and a job of the notes view succeeds
  when it is an administrator's, whose call sits in a \<open>try\<close> of its own, or when the
  marker is set.
\<close>

lemma distribute_without_export:
  assumes "increment W = NotExported"
  shows "\<not> fst (distribute_qa W J s)" "\<not> fst (distribute_generic W J rt s)"
    "incrementCalls (snd (distribute_qa W J s)) = incrementCalls s"
    "incrementCalls (snd (distribute_generic W J rt s)) = incrementCalls s"
    "incrementCalls (snd (distribute_notes W J s)) = incrementCalls s"
  using assms
  by (simp_all add: distribute_qa_def distribute_generic_def distribute_notes_def Let_def
      startDownload_def callIncrement_def succeed_def submit_def)

lemma run_fails:
  assumes "\<And>s1. \<not> fst (f s1)"
  shows "\<not> succeeded (catchFinally (andThen r f))"
proof -
  obtain ok s1 where r: "r = (ok, s1)" by (cases r)
  obtain ok2 s2 where f: "f s1 = (ok2, s2)" by (cases "f s1")
  from assms[of s1] have "\<not> ok2" by (simp add: f)
  then show ?thesis by (simp add: r f andThen_def succeeded_catchFinally)
qed

lemma run_calls_unchanged:
  assumes "\<And>s1. incrementCalls (snd (f s1)) = incrementCalls s1"
  shows "incrementCalls (catchFinally (andThen (generate W J (beginExport s)) f))
           = incrementCalls s"
proof -
  obtain ok s1 where g: "generate W J (beginExport s) = (ok, s1)"
    by (cases "generate W J (beginExport s)")
  have fr: "incrementCalls s1 = incrementCalls s"
    using generate_frame[of W J "beginExport s"] beginExport_frame[of s] by (simp add: g)
  obtain ok2 s2 where f: "f s1 = (ok2, s2)" by (cases "f s1")
  from assms[of s1] have "incrementCalls s2 = incrementCalls s1" by (simp add: f)
  then show ?thesis by (simp add: g f andThen_def catchFinally_frame fr)
qed

lemma no_increment_without_export:
  assumes "increment W = NotExported"
  shows "\<not> succeeded (handleExportConfirm_qa W J s)"
    "\<not> succeeded (handleExportConfirm_generic W J rt s)"
    "incrementCalls (handleExportConfirm_qa W J s) = incrementCalls s"
    "incrementCalls (handleExportConfirm_generic W J rt s) = incrementCalls s"
    "incrementCalls (handleExportConfirm_notes W J s) = incrementCalls s"
  unfolding handleExportConfirm_qa_def handleExportConfirm_generic_def
    handleExportConfirm_notes_def
  by (simp_all add: run_fails run_calls_unchanged distribute_without_export[OF assms])

text \<open>
  C6 in the sources, where \<open>api\<close> is \<open>src/services/api.ts\<close>: an administrator's export of
  the notes of a lesson, with every awaited operation resolving, succeeds (the file is
  handed to the browser and the success alert is the last alert), and the usage counter is
  not incremented: no request is made and no marker is set. The same export in the
  question-and-answer view and in the generic view hands the file over and then ends in the
  error alert, and a plain user's export submits the document and then ends in the error
  alert, all without a request.
\<close>

theorem successful_notes_job_without_increment:
  "succeeded (handleExportConfirm_notes world_sources job_admin view_idle)
   \<and> length (downloaded (handleExportConfirm_notes world_sources job_admin view_idle)) = 1
   \<and> incrementCalls (handleExportConfirm_notes world_sources job_admin view_idle) = []
   \<and> sessionStorage (handleExportConfirm_notes world_sources job_admin view_idle)
        (downloadKey ''L1'') = None
   \<and> length (downloaded (handleExportConfirm_qa world_sources job_admin view_idle)) = 1
   \<and> alerts (handleExportConfirm_qa world_sources job_admin view_idle) = [Loading, Error]
   \<and> incrementCalls (handleExportConfirm_qa world_sources job_admin view_idle) = []
   \<and> length (downloaded (handleExportConfirm_generic world_sources job_admin ''worksheet''
                view_idle)) = 1
   \<and> alerts (handleExportConfirm_generic world_sources job_admin ''worksheet'' view_idle)
       = [Loading, Error]
   \<and> submissions (handleExportConfirm_qa world_sources job_user view_idle) = 1
   \<and> alerts (handleExportConfirm_qa world_sources job_user view_idle) = [Loading, Loading, Error]
   \<and> alerts (handleExportConfirm_notes world_sources job_user view_idle)
       = [Loading, Loading, Error]"
  by (simp add: export_defs example_defs)

subsection \<open>The name of the downloaded file\<close>








end
